theory Spec2Isabelle
  imports Main "HOL-Library.Word" "HOL-Library.Char_ord" "HOL-Library.List_Lexorder"
    "HOL-Library.Sublist" "HOL-Library.Multiset"
begin

unbundle bit_operations_syntax

section \<open>C strings\<close>

text \<open>
  A value of type \<open>string\<close> is the content of a C string: the bytes before the
  terminating NUL. Command-line arguments, lines read from the terminal, environment values
  and paths are C strings already. Attribute and password buffers of the keychain are byte
  arrays with a length; the code copies them, appends a NUL and hands the copy on as
  \<open>char *\<close>, so the receiver sees the bytes before the first NUL: \<open>c_str\<close>.
  \<open>strlen\<close> is \<open>length\<close>. Allocation failures (\<open>malloc\<close>,
  \<open>asprintf\<close> returning NULL) are not modelled.
\<close>

definition c_str :: "string \<Rightarrow> string" where
  "c_str buf = takeWhile (\<lambda>c. c \<noteq> CHR 0x00) buf"

text \<open>\<open>strcmp\<close>: the difference of the first pair of bytes that differ, read as
  unsigned char; the end of a string reads as the terminator 0. Where the code only tests
  \<open>strcmp(a, b) == 0\<close> the model writes \<open>a = b\<close> (lemma \<open>strcmp_eq_0_iff\<close>);
  the function itself is used where the sign matters, in the comparator of the sort.\<close>

fun strcmp :: "string \<Rightarrow> string \<Rightarrow> int" where
  "strcmp [] [] = 0"
| "strcmp [] (b # bs) = - int (of_char b)"
| "strcmp (a # as) [] = int (of_char a)"
| "strcmp (a # as) (b # bs) =
     (if a = b then strcmp as bs else int (of_char a) - int (of_char b))"

fun strncmp :: "string \<Rightarrow> string \<Rightarrow> nat \<Rightarrow> int" where
  "strncmp a b 0 = 0"
| "strncmp [] [] (Suc n) = 0"
| "strncmp [] (b # bs) (Suc n) = - int (of_char b)"
| "strncmp (a # as) [] (Suc n) = int (of_char a)"
| "strncmp (a # as) (b # bs) (Suc n) =
     (if a = b then strncmp as bs n else int (of_char a) - int (of_char b))"

text \<open>\<open>s[0] == '-'\<close>; the first byte of the empty string is the terminator.\<close>

definition starts_with_dash :: "string \<Rightarrow> bool" where
  "starts_with_dash s = (case s of [] \<Rightarrow> False | c # _ \<Rightarrow> c = CHR ''-'')"

text \<open>\<open>strchr(s, ',') != NULL\<close>.\<close>

definition has_comma :: "string \<Rightarrow> bool" where
  "has_comma s = (CHR '','' \<in> set s)"

text \<open>The tokens that successive calls \<open>strsep(&names, ",")\<close> return until it
  returns NULL; \<open>tok\<close> is the token read so far. Empty tokens are returned too.\<close>

fun strsep_tokens :: "string \<Rightarrow> string \<Rightarrow> string list" where
  "strsep_tokens tok [] = [tok]"
| "strsep_tokens tok (c # cs) =
     (if c = CHR '','' then tok # strsep_tokens [] cs else strsep_tokens (tok @ [c]) cs)"

text \<open>\<open>qsort\<close> of the C library with comparator \<open>cmp\<close>, as insertion sort. The
  comparator used below orders strings totally and returns 0 on equal strings only, so
  every sorting algorithm returns the same array.\<close>

fun qsort_insert :: "('a \<Rightarrow> 'a \<Rightarrow> int) \<Rightarrow> 'a \<Rightarrow> 'a list \<Rightarrow> 'a list" where
  "qsort_insert cmp x [] = [x]"
| "qsort_insert cmp x (y # ys) =
     (if cmp x y \<le> 0 then x # y # ys else y # qsort_insert cmp x ys)"

definition qsort :: "('a \<Rightarrow> 'a \<Rightarrow> int) \<Rightarrow> 'a list \<Rightarrow> 'a list" where
  "qsort cmp xs = foldr (qsort_insert cmp) xs []"

section \<open>The keychain and the process\<close>

type_synonym OSStatus = int

definition noErr :: OSStatus where "noErr = 0"
definition errSecItemNotFound :: OSStatus where "errSecItemNotFound = - 25300"
definition errSecDuplicateItem :: OSStatus where "errSecDuplicateItem = - 25299"
definition errSecInvalidItemRef :: OSStatus where "errSecInvalidItemRef = - 25304"

definition ENVCHAIN_SERVICE_PREFIX :: string where
  "ENVCHAIN_SERVICE_PREFIX = ''envchain-''"

definition ENVCHAIN_ITEM_DESCRIPTION :: string where
  "ENVCHAIN_ITEM_DESCRIPTION = ''envchain''"

definition kSecKeychainPromptRequirePassphase :: "16 word" where
  "kSecKeychainPromptRequirePassphase = 0x0001"

text \<open>An ACL entry of an item's access object: the trusted applications (by path; NULL,
  here \<open>None\<close>, trusts every application), the description and the prompt selector
  (\<open>SecKeychainPromptSelector\<close>, 16 bits).\<close>

record acl =
  acl_apps :: "string list option"
  acl_desc :: string
  acl_prompt :: "16 word"

text \<open>A generic-password item. \<open>item_decrypt_acls\<close> are the ACL entries that
  \<open>SecAccessCopyMatchingACLList\<close> returns for \<open>kSecACLAuthorizationDecrypt\<close>.
  A \<open>SecKeychainItemRef\<close> is the item's index in its keychain.\<close>

record keychain_item =
  item_service :: string
  item_account :: string
  item_data :: string
  item_description :: "string option"
  item_decrypt_acls :: "acl list"

text \<open>The calls into the Security framework. The framework is not part of the program:
  a call returns the status \<open>sec_fault\<close> gives it, and when that is \<open>noErr\<close> it
  does what the framework documents on the item list.\<close>

datatype sec_call =
    KeychainOpen string
  | ItemCopyMatching
  | ItemCopyContent nat
  | FindGenericPassword
  | AddGenericPassword
  | ItemModifyAttributesAndData
  | ItemCopyAccess
  | ACLCopyContents
  | ACLSetContents
  | ItemSetAccess
  | ItemDelete
  | TrustedApplicationCreateFromPath string

datatype tc_status = TcOk | TcENOTTY | TcOther

text \<open>What the program writes to standard error, one constructor per format string.\<close>

datatype diag =
    HelpText
  | NoechoRequiresTerminal
  | ReadFailed
  | TcsetattrFailed
  | TcsetattrRestoreFailed
  | UnknownOptionColon string
  | UnknownOption string
  | SetAccessRequiresPolicy
  | ExecvpFailed
  | MissingArgument string
  | FailedToOpenKeychain string
  | ErrorStatus int
  | ExecutablePathWrong
  | RealPathError
  | SomethingWrongSearching
  | NamespaceNotDefined string
  | NoACL
  | RequirePassphraseMustBe01
  | KeyNotFound string string

record world =
  keychains :: "string option \<Rightarrow> keychain_item list"
  envchain_keychain :: "string option"
  sec_fault :: "sec_call \<Rightarrow> OSStatus"
  new_item_acls :: "acl list"
  exec_path :: "string option"
  realpath :: "string \<Rightarrow> string option"
  environ :: "string \<Rightarrow> string option"
  file_exists :: "string \<Rightarrow> bool"
  tcgetattr_status :: tc_status
  tcsetattr_ok :: bool
  tcsetattr_restore_ok :: bool
  stdin_lines :: "string list"
  execvp_ok :: "string \<Rightarrow> bool"
  stdout :: "string list"
  stderr :: "diag list"
  envchain_name :: string

text \<open>How a run ends other than by returning: \<open>exit(n)\<close>, the process image replaced
  by \<open>execvp\<close>, or undefined behaviour of the C program.\<close>

datatype halt =
    Exit int world
  | Replaced string "string list" world
  | Undefined world

definition warn :: "diag \<Rightarrow> world \<Rightarrow> world" where
  "warn m w = w\<lparr>stderr := stderr w @ [m]\<rparr>"

definition print :: "string \<Rightarrow> world \<Rightarrow> world" where
  "print s w = w\<lparr>stdout := stdout w @ [s]\<rparr>"

definition active_items :: "world \<Rightarrow> keychain_item list" where
  "active_items w = keychains w (envchain_keychain w)"

definition set_active_items :: "keychain_item list \<Rightarrow> world \<Rightarrow> world" where
  "set_active_items its w = w\<lparr>keychains := (keychains w)(envchain_keychain w := its)\<rparr>"

section \<open>The Security framework, as the program uses it\<close>

fun find_item :: "(keychain_item \<Rightarrow> bool) \<Rightarrow> keychain_item list \<Rightarrow> nat option" where
  "find_item P [] = None"
| "find_item P (x # xs) = (if P x then Some 0 else map_option Suc (find_item P xs))"

text \<open>\<open>SecKeychainFindGenericPassword\<close>: the first item of the keychain whose service and
  account are the given byte strings; \<open>errSecItemNotFound\<close> when there is none.\<close>

definition SecKeychainFindGenericPassword ::
    "string \<Rightarrow> string \<Rightarrow> world \<Rightarrow> OSStatus \<times> nat option" where
  "SecKeychainFindGenericPassword service account w =
     (if sec_fault w FindGenericPassword \<noteq> noErr then (sec_fault w FindGenericPassword, None)
      else case find_item (\<lambda>it. item_service it = service \<and> item_account it = account)
                  (active_items w) of
             None \<Rightarrow> (errSecItemNotFound, None)
           | Some i \<Rightarrow> (noErr, Some i))"

text \<open>\<open>SecKeychainAddGenericPassword\<close>: a new item with the access the keychain gives
  new items and no description; \<open>errSecDuplicateItem\<close> when service and account are
  taken.\<close>

definition SecKeychainAddGenericPassword ::
    "string \<Rightarrow> string \<Rightarrow> string \<Rightarrow> world \<Rightarrow> OSStatus \<times> nat option \<times> world" where
  "SecKeychainAddGenericPassword service account password w =
     (if sec_fault w AddGenericPassword \<noteq> noErr then (sec_fault w AddGenericPassword, None, w)
      else case find_item (\<lambda>it. item_service it = service \<and> item_account it = account)
                  (active_items w) of
             Some i \<Rightarrow> (errSecDuplicateItem, None, w)
           | None \<Rightarrow>
               (noErr, Some (length (active_items w)),
                set_active_items
                  (active_items w @
                    [\<lparr>item_service = service, item_account = account, item_data = password,
                      item_description = None, item_decrypt_acls = new_item_acls w\<rparr>]) w))"

text \<open>\<open>SecKeychainItemModifyAttributesAndData\<close> with the data and, when an attribute
  list is passed, the description attribute.\<close>

definition SecKeychainItemModifyAttributesAndData ::
    "nat option \<Rightarrow> string option \<Rightarrow> string \<Rightarrow> world \<Rightarrow> OSStatus \<times> world" where
  "SecKeychainItemModifyAttributesAndData ref attr_desc data w =
     (if sec_fault w ItemModifyAttributesAndData \<noteq> noErr
      then (sec_fault w ItemModifyAttributesAndData, w)
      else case ref of
             None \<Rightarrow> (errSecInvalidItemRef, w)
           | Some i \<Rightarrow>
               if length (active_items w) \<le> i then (errSecInvalidItemRef, w)
               else
                 let it = active_items w ! i;
                     it1 = it\<lparr>item_data := data\<rparr>;
                     it2 = (case attr_desc of None \<Rightarrow> it1
                            | Some d \<Rightarrow> it1\<lparr>item_description := Some d\<rparr>)
                 in (noErr, set_active_items ((active_items w)[i := it2]) w))"

text \<open>\<open>SecKeychainItemCopyAccess\<close> followed by \<open>SecAccessCopyMatchingACLList\<close> for
  the decrypt authorization.\<close>

definition SecKeychainItemCopyAccess :: "nat \<Rightarrow> world \<Rightarrow> OSStatus \<times> acl list" where
  "SecKeychainItemCopyAccess ref w =
     (if sec_fault w ItemCopyAccess \<noteq> noErr then (sec_fault w ItemCopyAccess, [])
      else if length (active_items w) \<le> ref then (errSecInvalidItemRef, [])
      else (noErr, item_decrypt_acls (active_items w ! ref)))"

text \<open>\<open>SecKeychainItemSetAccess\<close> with an access object whose first decrypt ACL entry
  has been rewritten.\<close>

definition SecKeychainItemSetAccess :: "nat \<Rightarrow> acl list \<Rightarrow> world \<Rightarrow> OSStatus \<times> world" where
  "SecKeychainItemSetAccess ref acls w =
     (if sec_fault w ItemSetAccess \<noteq> noErr then (sec_fault w ItemSetAccess, w)
      else if length (active_items w) \<le> ref then (errSecInvalidItemRef, w)
      else (noErr,
            set_active_items
              ((active_items w)[ref := (active_items w ! ref)\<lparr>item_decrypt_acls := acls\<rparr>]) w))"

definition SecKeychainItemDelete :: "nat \<Rightarrow> world \<Rightarrow> OSStatus \<times> world" where
  "SecKeychainItemDelete ref w =
     (if sec_fault w ItemDelete \<noteq> noErr then (sec_fault w ItemDelete, w)
      else if length (active_items w) \<le> ref then (errSecInvalidItemRef, w)
      else (noErr,
            set_active_items (take ref (active_items w) @ drop (Suc ref) (active_items w)) w))"

text \<open>\<open>SecItemCopyMatching\<close> for generic passwords with \<open>kSecMatchLimitAll\<close>: the
  items whose service, or whose description, is the queried string, in the keychain's
  order; \<open>errSecItemNotFound\<close> when there is none.\<close>

datatype query = ByService string | ByDescription string

fun query_matches :: "query \<Rightarrow> keychain_item \<Rightarrow> bool" where
  "query_matches (ByService s) it = (item_service it = s)"
| "query_matches (ByDescription d) it = (item_description it = Some d)"

definition SecItemCopyMatching :: "query \<Rightarrow> world \<Rightarrow> OSStatus \<times> nat list" where
  "SecItemCopyMatching q w =
     (if sec_fault w ItemCopyMatching \<noteq> noErr then (sec_fault w ItemCopyMatching, [])
      else
        let refs = filter (\<lambda>i. query_matches q (active_items w ! i))
                     [0 ..< length (active_items w)]
        in if refs = [] then (errSecItemNotFound, []) else (noErr, refs))"

section \<open>envchain\_osx.c\<close>

definition envchain_fail_osstatus :: "OSStatus \<Rightarrow> world \<Rightarrow> halt" where
  "envchain_fail_osstatus status w = Exit 10 (warn (ErrorStatus status) w)"

definition envchain_set_keychain :: "string option \<Rightarrow> world \<Rightarrow> halt + int \<times> world" where
  "envchain_set_keychain target w =
     (let w0 = w\<lparr>envchain_keychain := None\<rparr> in
      case target of
        None \<Rightarrow> Inr (0, w0)
      | Some t \<Rightarrow>
          if t = [] then Inr (0, w0)
          else if sec_fault w0 (KeychainOpen t) \<noteq> noErr
          then Inl (envchain_fail_osstatus (sec_fault w0 (KeychainOpen t))
                      (warn (FailedToOpenKeychain t) w0))
          else Inr (0, w0\<lparr>envchain_keychain := Some t\<rparr>))"

definition envchain_sortcmp_str :: "string \<Rightarrow> string \<Rightarrow> int" where
  "envchain_sortcmp_str a b = strcmp a b"

definition envchain_generate_service_name :: "string \<Rightarrow> string" where
  "envchain_generate_service_name name = ENVCHAIN_SERVICE_PREFIX @ name"

definition envchain_get_self_exec_path :: "world \<Rightarrow> halt + string" where
  "envchain_get_self_exec_path w =
     (case exec_path w of
        None \<Rightarrow> Inl (Exit 10 (warn ExecutablePathWrong w))
      | Some p \<Rightarrow> Inr p)"

definition envchain_get_real_path :: "string \<Rightarrow> world \<Rightarrow> halt + string" where
  "envchain_get_real_path path w =
     (case realpath w path of
        None \<Rightarrow> Inl (Exit 1 (warn RealPathError w))
      | Some p \<Rightarrow> Inr p)"

definition envchain_self_trusted_app_list :: "world \<Rightarrow> halt + string list" where
  "envchain_self_trusted_app_list w =
     (case envchain_get_self_exec_path w of
        Inl h \<Rightarrow> Inl h
      | Inr selfexecpath \<Rightarrow>
         (case envchain_get_real_path selfexecpath w of
            Inl h \<Rightarrow> Inl h
          | Inr selfrealpath \<Rightarrow>
              if sec_fault w (TrustedApplicationCreateFromPath selfexecpath) \<noteq> noErr
              then Inl (envchain_fail_osstatus
                          (sec_fault w (TrustedApplicationCreateFromPath selfexecpath)) w)
              else if selfexecpath \<noteq> selfrealpath
              then
                if sec_fault w (TrustedApplicationCreateFromPath selfrealpath) \<noteq> noErr
                then Inl (envchain_fail_osstatus
                            (sec_fault w (TrustedApplicationCreateFromPath selfrealpath)) w)
                else Inr [selfexecpath, selfrealpath]
              else Inr [selfexecpath]))"

text \<open>Lines 214 to 225 of \<open>envchain_search_values_applier\<close>: a service attribute that
  starts with the prefix loses it; any other is kept as it is.\<close>

definition strip_service_prefix :: "string \<Rightarrow> string" where
  "strip_service_prefix key =
     (if strncmp key ENVCHAIN_SERVICE_PREFIX (length ENVCHAIN_SERVICE_PREFIX) = 0
      then drop (length ENVCHAIN_SERVICE_PREFIX) key
      else key)"

text \<open>The applier's context holds either a search callback (then the account attribute and
  the password are read) or a namespace callback (then the service attribute is read).
  Callbacks act on their \<open>void *data\<close> and on the process. A read that succeeds is
  taken to return the attribute's buffer, so that \<open>rawkey\<close> is not NULL; what the code
  prints about \<open>errno\<close> after a failed read is left out.\<close>

datatype 'd envchain_search_values_applier_data =
    SearchCallback "string \<Rightarrow> string \<Rightarrow> 'd \<times> world \<Rightarrow> 'd \<times> world"
  | NamespaceCallback "string \<Rightarrow> 'd \<times> world \<Rightarrow> 'd \<times> world"

definition envchain_search_values_applier ::
    "'d envchain_search_values_applier_data \<Rightarrow> nat \<Rightarrow> 'd \<times> world \<Rightarrow> 'd \<times> world" where
  "envchain_search_values_applier context ref dw =
     (let w = snd dw;
          status = (if length (active_items w) \<le> ref then errSecInvalidItemRef
                    else sec_fault w (ItemCopyContent ref))
      in if status \<noteq> noErr then (fst dw, warn SomethingWrongSearching w)
         else
           case context of
             SearchCallback search_callback \<Rightarrow>
               search_callback (c_str (item_account (active_items w ! ref)))
                 (c_str (item_data (active_items w ! ref))) dw
           | NamespaceCallback namespace_callback \<Rightarrow>
               namespace_callback
                 (c_str (strip_service_prefix (item_service (active_items w ! ref)))) dw)"

text \<open>The uniqufier's context is the \<open>names\<close> array filled so far; \<open>head_index\<close> is
  its length.\<close>

definition envchain_search_namespaces_uniqufier ::
    "string \<Rightarrow> string list \<times> world \<Rightarrow> string list \<times> world" where
  "envchain_search_namespaces_uniqufier name cw = (fst cw @ [name], snd cw)"

text \<open>The loop of lines 324 to 329 over the sorted array; \<open>prev_name\<close> is NULL at the
  start.\<close>

fun emit_distinct ::
    "(string \<Rightarrow> 'd \<times> world \<Rightarrow> 'd \<times> world) \<Rightarrow> string option \<Rightarrow> string list
      \<Rightarrow> 'd \<times> world \<Rightarrow> 'd \<times> world" where
  "emit_distinct callback prev_name [] dw = dw"
| "emit_distinct callback prev_name (n # ns) dw =
     emit_distinct callback (Some n) ns
       (if (case prev_name of None \<Rightarrow> True | Some p \<Rightarrow> p \<noteq> n) then callback n dw else dw)"

text \<open>When an attribute read fails the applier stores no name, and \<open>qsort\<close> then reads
  array slots that were never written: undefined behaviour.\<close>

definition envchain_search_namespaces ::
    "(string \<Rightarrow> 'd \<times> world \<Rightarrow> 'd \<times> world) \<Rightarrow> 'd \<Rightarrow> world \<Rightarrow> halt + int \<times> 'd \<times> world" where
  "envchain_search_namespaces callback data w =
     (let (status, items) = SecItemCopyMatching (ByDescription ENVCHAIN_ITEM_DESCRIPTION) w in
      if status \<noteq> errSecItemNotFound \<and> status \<noteq> noErr
      then Inl (envchain_fail_osstatus status w)
      else if status = errSecItemNotFound \<or> length items = 0 then Inr (0, data, w)
      else
        let (names, w1) =
              fold (envchain_search_values_applier
                      (NamespaceCallback envchain_search_namespaces_uniqufier)) items ([], w)
        in if length names < length items then Inl (Undefined w1)
           else Inr (0, emit_distinct callback None (qsort envchain_sortcmp_str names)
                          (data, w1)))"

definition envchain_search_values ::
    "string \<Rightarrow> (string \<Rightarrow> string \<Rightarrow> 'd \<times> world \<Rightarrow> 'd \<times> world) \<Rightarrow> 'd \<Rightarrow> world
      \<Rightarrow> halt + int \<times> 'd \<times> world" where
  "envchain_search_values name callback data w =
     (let (status, items) =
            SecItemCopyMatching (ByService (envchain_generate_service_name name)) w in
      if status \<noteq> errSecItemNotFound \<and> status \<noteq> noErr
      then Inl (envchain_fail_osstatus status w)
      else if status = errSecItemNotFound \<or> length items = 0
      then Inr (1, data, warn (NamespaceNotDefined name) w)
      else Inr (0, fold (envchain_search_values_applier (SearchCallback callback)) items
                     (data, w)))"

text \<open>Returns 0 when the item is not found and 1 with its reference otherwise.\<close>

definition envchain_find_value :: "string \<Rightarrow> string \<Rightarrow> world \<Rightarrow> halt + int \<times> nat option" where
  "envchain_find_value name key w =
     (let (status, ref) =
            SecKeychainFindGenericPassword (envchain_generate_service_name name) key w in
      if status \<noteq> noErr \<and> status \<noteq> errSecItemNotFound
      then Inl (envchain_fail_osstatus status w)
      else Inr (if status = errSecItemNotFound then 0 else 1, ref))"

text \<open>The prompt selector and application list that lines 454 to 462 compute from the
  selector read from the ACL.\<close>

definition require_passphrase_prompt :: "16 word \<Rightarrow> 16 word" where
  "require_passphrase_prompt prompt =
     (if prompt = 0 then 0x100 else prompt) OR kSecKeychainPromptRequirePassphase"

text \<open>An empty ACL list has no element 0; the model takes the branch the code has for
  \<open>acl == NULL\<close>.\<close>

definition envchain_apply_item_access :: "nat \<Rightarrow> int \<Rightarrow> world \<Rightarrow> halt + int \<times> world" where
  "envchain_apply_item_access ref require_passphrase w =
     (let (status, acl_list) = SecKeychainItemCopyAccess ref w in
      if status \<noteq> noErr then Inl (envchain_fail_osstatus status w)
      else
        case acl_list of
          [] \<Rightarrow> Inl (envchain_fail_osstatus (- 1) (warn NoACL w))
        | acl # other_acls \<Rightarrow>
            if sec_fault w ACLCopyContents \<noteq> noErr
            then Inl (envchain_fail_osstatus (sec_fault w ACLCopyContents) w)
            else
              (case (if require_passphrase = 1
                     then Inr (require_passphrase_prompt (acl_prompt acl), [])
                     else map_sum id (\<lambda>apps. (0, apps)) (envchain_self_trusted_app_list w)) of
                 Inl h \<Rightarrow> Inl h
               | Inr (prompt, app_list) \<Rightarrow>
                   if sec_fault w ACLSetContents \<noteq> noErr
                   then Inl (envchain_fail_osstatus (sec_fault w ACLSetContents) w)
                   else
                     let (status2, w2) =
                           SecKeychainItemSetAccess ref
                             (acl\<lparr>acl_apps := Some app_list, acl_prompt := prompt\<rparr> # other_acls)
                             w
                     in if status2 \<noteq> noErr then Inl (envchain_fail_osstatus status2 w)
                        else Inr (0, w2)))"

definition envchain_save_value ::
    "string \<Rightarrow> string \<Rightarrow> string \<Rightarrow> int \<Rightarrow> world \<Rightarrow> halt + world" where
  "envchain_save_value name key val require_passphrase w =
     (case envchain_find_value name key w of
        Inl h \<Rightarrow> Inl h
      | Inr (found, ref0) \<Rightarrow>
          let (status, ref, w1) =
                (if found = 0
                 then SecKeychainAddGenericPassword (envchain_generate_service_name name)
                        key val w
                 else case SecKeychainItemModifyAttributesAndData ref0 None val w of
                        (st, w') \<Rightarrow> (st, ref0, w'))
          in if status \<noteq> noErr then Inl (envchain_fail_osstatus status w1)
             else
               let (status2, w2) =
                     SecKeychainItemModifyAttributesAndData ref
                       (Some ENVCHAIN_ITEM_DESCRIPTION) val w1
               in if status2 \<noteq> noErr then Inl (envchain_fail_osstatus status2 w2)
                  else if require_passphrase \<ge> 0
                  then (case ref of
                          None \<Rightarrow> Inl (envchain_fail_osstatus errSecInvalidItemRef w2)
                        | Some r \<Rightarrow>
                            map_sum id snd (envchain_apply_item_access r require_passphrase w2))
                  else Inr w2)"

definition envchain_update_value_access ::
    "string \<Rightarrow> string \<Rightarrow> int \<Rightarrow> world \<Rightarrow> halt + int \<times> world" where
  "envchain_update_value_access name key require_passphrase w =
     (if require_passphrase < 0 then Inr (1, warn RequirePassphraseMustBe01 w)
      else
        case envchain_find_value name key w of
          Inl h \<Rightarrow> Inl h
        | Inr (found, ref) \<Rightarrow>
            if found = 0 then Inr (1, warn (KeyNotFound name key) w)
            else
              (case ref of
                 None \<Rightarrow> Inl (envchain_fail_osstatus errSecInvalidItemRef w)
               | Some r \<Rightarrow>
                   (case envchain_apply_item_access r require_passphrase w of
                      Inl h \<Rightarrow> Inl h
                    | Inr (rc, w') \<Rightarrow> Inr (0, w'))))"

definition envchain_delete_value :: "string \<Rightarrow> string \<Rightarrow> world \<Rightarrow> halt + world" where
  "envchain_delete_value name key w =
     (case envchain_find_value name key w of
        Inl h \<Rightarrow> Inl h
      | Inr (found, ref) \<Rightarrow>
          if found \<noteq> 0
          then (case ref of None \<Rightarrow> Inr w | Some r \<Rightarrow> Inr (snd (SecKeychainItemDelete r w)))
          else Inr w)"

section \<open>envchain.c\<close>

definition envchain_abort_with_help :: "world \<Rightarrow> halt" where
  "envchain_abort_with_help w = Exit 2 (warn HelpText w)"

text \<open>\<open>getline\<close> and \<open>readline\<close> take the next line of standard input, without its
  newline. At the end of input \<open>readline\<close> returns NULL, and \<open>getline\<close> fails and
  leaves the buffer it allocated, taken to be empty.\<close>

definition envchain_noecho_read :: "string \<Rightarrow> world \<Rightarrow> halt + string option \<times> world" where
  "envchain_noecho_read prompt w =
     (if tcgetattr_status w \<noteq> TcOk
      then Inr (None, warn (if tcgetattr_status w = TcENOTTY then NoechoRequiresTerminal
                            else ReadFailed) w)
      else if \<not> tcsetattr_ok w then Inl (Exit 10 (warn TcsetattrFailed w))
      else
        let w1 = print (prompt @ '' (noecho):'') w;
            str = (case stdin_lines w1 of [] \<Rightarrow> [] | l # ls \<Rightarrow> l);
            w2 = w1\<lparr>stdin_lines := tl (stdin_lines w1)\<rparr>
        in if \<not> tcsetattr_restore_ok w2 then Inl (Exit 10 (warn TcsetattrRestoreFailed w2))
           else Inr (Some str, print [CHR 0x0A] w2))"

definition envchain_ask_value ::
    "string \<Rightarrow> string \<Rightarrow> bool \<Rightarrow> world \<Rightarrow> halt + string option \<times> world" where
  "envchain_ask_value name key noecho w =
     (let prompt = name @ ''.'' @ key in
      if noecho then envchain_noecho_read prompt w
      else
        let w1 = print '': '' (print prompt w) in
        case stdin_lines w1 of
          [] \<Rightarrow> Inr (None, w1)
        | l # ls \<Rightarrow> Inr (Some l, w1\<lparr>stdin_lines := ls\<rparr>))"

text \<open>The chain of \<open>strcmp\<close> tests on an option of \<open>envchain_set\<close>, lines 171 to
  186, and of \<open>envchain_set_access\<close>, lines 292 to 303.\<close>

datatype cli_option = OptNoecho | OptRequirePassphrase | OptNoRequirePassphrase | OptUnknown

definition envchain_set_option :: "string \<Rightarrow> cli_option" where
  "envchain_set_option a =
     (if a = ''-n'' \<or> a = ''--noecho'' then OptNoecho
      else if a = ''-p'' \<or> a = ''--require-passphrase'' then OptRequirePassphrase
      else if a = ''-P'' \<or> a = ''--no-require-passphrase'' then OptNoRequirePassphrase
      else OptUnknown)"

definition envchain_set_access_option :: "string \<Rightarrow> cli_option" where
  "envchain_set_access_option a =
     (if a = ''-p'' \<or> a = ''--require-passphrase'' then OptRequirePassphrase
      else if a = ''-P'' \<or> a = ''--no-require-passphrase'' then OptNoRequirePassphrase
      else OptUnknown)"

text \<open>The option loop of \<open>envchain_set\<close> runs while more than two arguments remain;
  \<open>Inl\<close> is the unknown option it stops at.\<close>

fun envchain_set_options ::
    "string list \<Rightarrow> bool \<Rightarrow> int \<Rightarrow> string + string list \<times> bool \<times> int" where
  "envchain_set_options (a # b # c # rest) noecho require_passphrase =
     (if \<not> starts_with_dash a then Inr (a # b # c # rest, noecho, require_passphrase)
      else case envchain_set_option a of
             OptNoecho \<Rightarrow> envchain_set_options (b # c # rest) True require_passphrase
           | OptRequirePassphrase \<Rightarrow> envchain_set_options (b # c # rest) noecho 1
           | OptNoRequirePassphrase \<Rightarrow> envchain_set_options (b # c # rest) noecho 0
           | OptUnknown \<Rightarrow> Inl a)"
| "envchain_set_options argv noecho require_passphrase =
     Inr (argv, noecho, require_passphrase)"

fun envchain_set_keys ::
    "string \<Rightarrow> string list \<Rightarrow> bool \<Rightarrow> int \<Rightarrow> world \<Rightarrow> halt + int \<times> world" where
  "envchain_set_keys name [] noecho require_passphrase w = Inr (0, w)"
| "envchain_set_keys name (key # keys) noecho require_passphrase w =
     (case envchain_ask_value name key noecho w of
        Inl h \<Rightarrow> Inl h
      | Inr (None, w1) \<Rightarrow> Inr (1, w1)
      | Inr (Some val, w1) \<Rightarrow>
          (case envchain_save_value name key val require_passphrase w1 of
             Inl h \<Rightarrow> Inl h
           | Inr w2 \<Rightarrow> envchain_set_keys name keys noecho require_passphrase w2))"

definition envchain_set :: "string list \<Rightarrow> world \<Rightarrow> halt + int \<times> world" where
  "envchain_set argv w =
     (case envchain_set_options argv False (- 1) of
        Inl opt \<Rightarrow> Inr (1, warn (UnknownOptionColon opt) w)
      | Inr (args, noecho, require_passphrase) \<Rightarrow>
          (case args of
             name # key # keys \<Rightarrow> envchain_set_keys name (key # keys) noecho require_passphrase w
           | _ \<Rightarrow> Inl (envchain_abort_with_help w)))"

record envchain_list_context =
  target :: "string option"
  show_value :: bool

definition envchain_list_value_callback ::
    "string \<Rightarrow> string \<Rightarrow> envchain_list_context \<times> world \<Rightarrow> envchain_list_context \<times> world" where
  "envchain_list_value_callback key val cw =
     (fst cw, if show_value (fst cw) then print (key @ ''='' @ val) (snd cw)
              else print key (snd cw))"

definition envchain_list_namespace_callback ::
    "string \<Rightarrow> envchain_list_context \<times> world \<Rightarrow> envchain_list_context \<times> world" where
  "envchain_list_namespace_callback name cw = (fst cw, print name (snd cw))"

definition is_show_value :: "string \<Rightarrow> bool" where
  "is_show_value a = (a = ''--show-value'' \<or> a = ''-v'')"

text \<open>The argument loop of \<open>envchain_list\<close>; \<open>None\<close> when a second target makes it
  abort with the help text.\<close>

fun envchain_list_args ::
    "string list \<Rightarrow> envchain_list_context \<Rightarrow> envchain_list_context option" where
  "envchain_list_args [] context = Some context"
| "envchain_list_args (a # rest) context =
     (if is_show_value a
      then envchain_list_args rest (context\<lparr>show_value := True\<rparr>)
      else if target context \<noteq> None then None
      else envchain_list_args rest (context\<lparr>target := Some a\<rparr>))"

definition envchain_list :: "string list \<Rightarrow> world \<Rightarrow> halt + int \<times> world" where
  "envchain_list argv w =
     (case envchain_list_args argv \<lparr>target = None, show_value = False\<rparr> of
        None \<Rightarrow> Inl (envchain_abort_with_help w)
      | Some context \<Rightarrow>
          (case target context of
             Some t \<Rightarrow>
               (case envchain_search_values t envchain_list_value_callback context w of
                  Inl h \<Rightarrow> Inl h
                | Inr (rc, c', w') \<Rightarrow> Inr (0, w'))
           | None \<Rightarrow>
               if show_value context then Inl (envchain_abort_with_help w)
               else
                 (case envchain_search_namespaces envchain_list_namespace_callback context w of
                    Inl h \<Rightarrow> Inl h
                  | Inr (rc, c', w') \<Rightarrow> Inr (0, w'))))"

fun envchain_unset_keys :: "string \<Rightarrow> string list \<Rightarrow> world \<Rightarrow> halt + int \<times> world" where
  "envchain_unset_keys name [] w = Inr (0, w)"
| "envchain_unset_keys name (key # keys) w =
     (case envchain_delete_value name key w of
        Inl h \<Rightarrow> Inl h
      | Inr w1 \<Rightarrow> envchain_unset_keys name keys w1)"

definition envchain_unset :: "string list \<Rightarrow> world \<Rightarrow> halt + int \<times> world" where
  "envchain_unset argv w =
     (case argv of
        name # key # keys \<Rightarrow> envchain_unset_keys name (key # keys) w
      | _ \<Rightarrow> Inl (envchain_abort_with_help w))"

fun envchain_set_access_options :: "string list \<Rightarrow> int \<Rightarrow> string + string list \<times> int" where
  "envchain_set_access_options (a # b # c # rest) require_passphrase =
     (if \<not> starts_with_dash a then Inr (a # b # c # rest, require_passphrase)
      else case envchain_set_access_option a of
             OptRequirePassphrase \<Rightarrow> envchain_set_access_options (b # c # rest) 1
           | OptNoRequirePassphrase \<Rightarrow> envchain_set_access_options (b # c # rest) 0
           | _ \<Rightarrow> Inl a)"
| "envchain_set_access_options argv require_passphrase = Inr (argv, require_passphrase)"

text \<open>The key loop of \<open>envchain_set_access\<close>, lines 314 to 320, with \<open>result\<close> as
  accumulator.\<close>

fun envchain_set_access_keys ::
    "string \<Rightarrow> string list \<Rightarrow> int \<Rightarrow> int \<Rightarrow> world \<Rightarrow> halt + int \<times> world" where
  "envchain_set_access_keys name [] require_passphrase result w = Inr (result, w)"
| "envchain_set_access_keys name (key # keys) require_passphrase result w =
     (case envchain_update_value_access name key require_passphrase w of
        Inl h \<Rightarrow> Inl h
      | Inr (rc, w1) \<Rightarrow>
          envchain_set_access_keys name keys require_passphrase
            (if rc \<noteq> 0 then 1 else result) w1)"

definition envchain_set_access :: "string list \<Rightarrow> world \<Rightarrow> halt + int \<times> world" where
  "envchain_set_access argv w =
     (case envchain_set_access_options argv (- 1) of
        Inl opt \<Rightarrow> Inr (1, warn (UnknownOptionColon opt) w)
      | Inr (args, require_passphrase) \<Rightarrow>
          (case args of
             name # key # keys \<Rightarrow>
               if require_passphrase < 0 then Inr (2, warn SetAccessRequiresPolicy w)
               else envchain_set_access_keys name (key # keys) require_passphrase 0 w
           | _ \<Rightarrow> Inl (envchain_abort_with_help w)))"

text \<open>\<open>setenv\<close> fails with EINVAL, changing nothing, on an empty name and on a name that
  contains \<open>=\<close>.\<close>

definition setenv :: "string \<Rightarrow> string \<Rightarrow> int \<Rightarrow> world \<Rightarrow> world" where
  "setenv name val overwrite w =
     (if name = [] \<or> CHR ''='' \<in> set name then w
      else if overwrite = 0 \<and> environ w name \<noteq> None then w
      else w\<lparr>environ := (environ w)(name \<mapsto> val)\<rparr>)"

definition envchain_exec_value_callback ::
    "string \<Rightarrow> string \<Rightarrow> unit \<times> world \<Rightarrow> unit \<times> world" where
  "envchain_exec_value_callback key val cw = (fst cw, setenv key val 1 (snd cw))"

text \<open>The loop of lines 348 to 350 over the tokens of the first argument.\<close>

fun envchain_exec_names :: "string list \<Rightarrow> world \<Rightarrow> halt + world" where
  "envchain_exec_names [] w = Inr w"
| "envchain_exec_names (name # names) w =
     (case envchain_search_values name envchain_exec_value_callback () w of
        Inl h \<Rightarrow> Inl h
      | Inr (rc, u, w1) \<Rightarrow> envchain_exec_names names w1)"

definition envchain_exec :: "string list \<Rightarrow> world \<Rightarrow> halt + int \<times> world" where
  "envchain_exec argv w =
     (case argv of
        names # exe # args \<Rightarrow>
          (case envchain_exec_names (strsep_tokens [] names) w of
             Inl h \<Rightarrow> Inl h
           | Inr w1 \<Rightarrow>
               if execvp_ok w1 exe then Inl (Replaced exe (exe # args) w1)
               else Inr (1, warn ExecvpFailed w1))
      | _ \<Rightarrow> Inl (envchain_abort_with_help w))"

text \<open>The chain of \<open>strcmp\<close> tests on the command in
  \<open>envchain_namespace_from_argv\<close>, lines 375 to 396.\<close>

datatype argv_command = SetCommand | UnsetCommand | ListCommand | OtherCommand

definition namespace_command :: "string \<Rightarrow> argv_command" where
  "namespace_command cmd =
     (if cmd = ''--set'' \<or> cmd = ''-s'' \<or> cmd = ''--set-access'' then SetCommand
      else if cmd = ''--unset'' then UnsetCommand
      else if cmd = ''--list'' \<or> cmd = ''-l'' then ListCommand
      else OtherCommand)"

definition envchain_namespace_from_argv :: "string list \<Rightarrow> string option" where
  "envchain_namespace_from_argv argv =
     (case argv of
        [] \<Rightarrow> None
      | cmd # rest \<Rightarrow>
          let ns =
            (case namespace_command cmd of
               SetCommand \<Rightarrow>
                 (case dropWhile starts_with_dash rest of [] \<Rightarrow> None | n # _ \<Rightarrow> Some n)
             | UnsetCommand \<Rightarrow> (case rest of [] \<Rightarrow> None | n # _ \<Rightarrow> Some n)
             | ListCommand \<Rightarrow>
                 (case dropWhile is_show_value rest of [] \<Rightarrow> None | n # _ \<Rightarrow> Some n)
             | OtherCommand \<Rightarrow>
                 if \<not> starts_with_dash cmd
                 then (if \<not> has_comma cmd then Some cmd else None)
                 else None)
          in (case ns of
                None \<Rightarrow> None
              | Some n \<Rightarrow> if n = [] then None else Some n))"

definition envchain_build_namespace_keychain_path ::
    "string \<Rightarrow> string \<Rightarrow> world \<Rightarrow> string option" where
  "envchain_build_namespace_keychain_path dir ns w =
     (let path = dir @ ''/'' @ ns @ ''.keychain-db'' in
      if file_exists w path then Some path else None)"

datatype global_option = OptKeychain | OptKeychainFromEnv | OptKeychainDir | OptOther

definition main_option :: "string \<Rightarrow> global_option" where
  "main_option a =
     (if a = ''--keychain'' then OptKeychain
      else if a = ''--keychain-from-env'' then OptKeychainFromEnv
      else if a = ''--keychain-dir'' then OptKeychainDir
      else OptOther)"

text \<open>The loop over the global options, lines 439 to 467; \<open>Inl\<close> is the option whose
  argument is missing.\<close>

fun main_options ::
    "string list \<Rightarrow> string option \<Rightarrow> string option \<Rightarrow> bool
      \<Rightarrow> string + string list \<times> string option \<times> string option \<times> bool" where
  "main_options [] keychain_target keychain_dir use_keychain_from_env =
     Inr ([], keychain_target, keychain_dir, use_keychain_from_env)"
| "main_options (a # rest) keychain_target keychain_dir use_keychain_from_env =
     (case main_option a of
        OptKeychain \<Rightarrow>
          (case rest of
             [] \<Rightarrow> Inl a
           | t # rest' \<Rightarrow> main_options rest' (Some t) keychain_dir use_keychain_from_env)
      | OptKeychainFromEnv \<Rightarrow> main_options rest keychain_target keychain_dir True
      | OptKeychainDir \<Rightarrow>
          (case rest of
             [] \<Rightarrow> Inl a
           | d # rest' \<Rightarrow> main_options rest' keychain_target (Some d) use_keychain_from_env)
      | OptOther \<Rightarrow> Inr (a # rest, keychain_target, keychain_dir, use_keychain_from_env))"

definition auto_keychain_target :: "string option \<Rightarrow> string list \<Rightarrow> world \<Rightarrow> string option" where
  "auto_keychain_target keychain_dir argv w =
     (case keychain_dir of
        None \<Rightarrow> None
      | Some dir \<Rightarrow>
          if dir = [] then None
          else (case envchain_namespace_from_argv argv of
                  None \<Rightarrow> None
                | Some ns \<Rightarrow> envchain_build_namespace_keychain_path dir ns w))"

text \<open>The chain of tests on the command in \<open>main\<close>, lines 492 to 520.\<close>

datatype main_command =
  RunSet | RunList | RunUnset | RunSetAccess | RunUnknownOption | RunExec

definition main_command :: "string \<Rightarrow> main_command" where
  "main_command cmd =
     (if cmd = ''--set'' \<or> cmd = ''-s'' then RunSet
      else if cmd = ''--list'' \<or> cmd = ''-l'' then RunList
      else if cmd = ''--unset'' then RunUnset
      else if cmd = ''--set-access'' then RunSetAccess
      else if starts_with_dash cmd then RunUnknownOption
      else RunExec)"

definition main :: "string list \<Rightarrow> world \<Rightarrow> halt + int \<times> world" where
  "main argv w =
     (let w0 = w\<lparr>envchain_name := (case argv of [] \<Rightarrow> [] | a # _ \<Rightarrow> a)\<rparr> in
      if length argv < 2 then Inl (envchain_abort_with_help w0)
      else
        case main_options (tl argv) None None False of
          Inl opt \<Rightarrow> Inr (2, warn (MissingArgument opt) w0)
        | Inr (args, target0, dir0, use_keychain_from_env) \<Rightarrow>
            let target1 = (if target0 = None \<and> use_keychain_from_env
                           then environ w0 ''ENVCHAIN_KEYCHAIN'' else target0);
                keychain_dir = (if dir0 = None then environ w0 ''ENVCHAIN_KEYCHAIN_DIR''
                                else dir0);
                keychain_target =
                  (if target1 = None
                   then (case auto_keychain_target keychain_dir args w0 of
                           None \<Rightarrow> target1 | Some p \<Rightarrow> Some p)
                   else target1)
            in (case envchain_set_keychain keychain_target w0 of
                  Inl h \<Rightarrow> Inl h
                | Inr (rc, w1) \<Rightarrow>
                    if rc \<noteq> 0 then Inr (1, w1)
                    else
                      (case args of
                         [] \<Rightarrow> Inl (envchain_abort_with_help w1)
                       | cmd # rest \<Rightarrow>
                           (case main_command cmd of
                              RunSet \<Rightarrow> envchain_set rest w1
                            | RunList \<Rightarrow> envchain_list rest w1
                            | RunUnset \<Rightarrow> envchain_unset rest w1
                            | RunSetAccess \<Rightarrow> envchain_set_access rest w1
                            | RunUnknownOption \<Rightarrow> Inr (2, warn (UnknownOption cmd) w1)
                            | RunExec \<Rightarrow> envchain_exec args w1))))"

section \<open>Example worlds\<close>

text \<open>A process with a healthy backend, started as \<open>/usr/local/bin/envchain\<close> through
  a symbolic link to \<open>/opt/envchain/bin/envchain\<close>, whose keychain holds the given
  items.\<close>

definition example_acl :: "16 word \<Rightarrow> acl" where
  "example_acl prompt =
     \<lparr>acl_apps = Some [''/usr/bin/security''], acl_desc = ''item'', acl_prompt = prompt\<rparr>"

definition example_item :: "string \<Rightarrow> string \<Rightarrow> string \<Rightarrow> keychain_item" where
  "example_item service account data =
     \<lparr>item_service = service, item_account = account, item_data = data,
      item_description = Some ENVCHAIN_ITEM_DESCRIPTION,
      item_decrypt_acls = [example_acl 0x0010]\<rparr>"

definition example_world :: "keychain_item list \<Rightarrow> world" where
  "example_world its =
     \<lparr>keychains = (\<lambda>k. its), envchain_keychain = None, sec_fault = (\<lambda>c. noErr),
      new_item_acls = [example_acl 0],
      exec_path = Some ''/usr/local/bin/envchain'',
      realpath = (\<lambda>p. Some ''/opt/envchain/bin/envchain''),
      environ = (\<lambda>k. None), file_exists = (\<lambda>p. False),
      tcgetattr_status = TcOk, tcsetattr_ok = True, tcsetattr_restore_ok = True,
      stdin_lines = [], execvp_ok = (\<lambda>p. True), stdout = [], stderr = [],
      envchain_name = ''envchain''\<rparr>"

section \<open>Notions used in the statements\<close>

text \<open>The first token of a list when there is one and it is not empty.\<close>

definition nonempty_token :: "string list \<Rightarrow> string option" where
  "nonempty_token toks = (case toks of [] \<Rightarrow> None | n # _ \<Rightarrow> if n = [] then None else Some n)"

text \<open>The items that carry the description tag, which are the ones the query of
  \<open>envchain_search_namespaces\<close> returns, and the name the applier derives from each, in
  the keychain's order.\<close>

definition tagged_items :: "world \<Rightarrow> keychain_item list" where
  "tagged_items w =
     filter (query_matches (ByDescription ENVCHAIN_ITEM_DESCRIPTION)) (active_items w)"

definition backend_namespaces :: "world \<Rightarrow> string list" where
  "backend_namespaces w =
     map (\<lambda>it. c_str (strip_service_prefix (item_service it))) (tagged_items w)"

text \<open>The process after the first decrypt ACL entry of item \<open>ref\<close> has been replaced
  by \<open>a\<close>.\<close>

definition with_decrypt_acl :: "nat \<Rightarrow> acl \<Rightarrow> world \<Rightarrow> world" where
  "with_decrypt_acl ref a w =
     set_active_items
       ((active_items w)[ref := (active_items w ! ref)
          \<lparr>item_decrypt_acls := a # tl (item_decrypt_acls (active_items w ! ref))\<rparr>]) w"

text \<open>An item is the entry of namespace \<open>name\<close> and key \<open>key\<close> when its service is the
  generated service name and its account is the key.\<close>

definition entry_matches :: "string \<Rightarrow> string \<Rightarrow> keychain_item \<Rightarrow> bool" where
  "entry_matches name key it =
     (item_service it = envchain_generate_service_name name \<and> item_account it = key)"

text \<open>The entry that \<open>envchain_save_value\<close> leaves for a namespace, key and value, with
  the given ACL entries.\<close>

definition saved_entry :: "string \<Rightarrow> string \<Rightarrow> string \<Rightarrow> acl list \<Rightarrow> keychain_item" where
  "saved_entry name key val acls =
     \<lparr>item_service = envchain_generate_service_name name, item_account = key,
      item_data = val, item_description = Some ENVCHAIN_ITEM_DESCRIPTION,
      item_decrypt_acls = acls\<rparr>"

text \<open>The pairs of key and value that \<open>envchain_search_values\<close> hands to its callback
  for a namespace when every read succeeds, in the keychain's order.\<close>

definition namespace_pairs :: "string \<Rightarrow> world \<Rightarrow> (string \<times> string) list" where
  "namespace_pairs name w =
     map (\<lambda>it. (c_str (item_account it), c_str (item_data it)))
       (filter (query_matches (ByService (envchain_generate_service_name name)))
          (active_items w))"

text \<open>The pairs handed to the callback over a whole list of namespaces, first namespace
  first, and in that list the value of the last pair with a given key.\<close>

definition exec_pairs :: "string list \<Rightarrow> world \<Rightarrow> (string \<times> string) list" where
  "exec_pairs names w = concat (map (\<lambda>n. namespace_pairs n w) names)"

definition last_value :: "string \<Rightarrow> (string \<times> string) list \<Rightarrow> string option" where
  "last_value key pairs = map_of (rev pairs) key"

text \<open>The process after \<open>setenv\<close> with overwrite has been called on each pair in
  turn.\<close>

definition install :: "(string \<times> string) list \<Rightarrow> world \<Rightarrow> world" where
  "install pairs w = fold (\<lambda>p. setenv (fst p) (snd p) 1) pairs w"

text \<open>The exit status of a run, when it ends with one (the value \<open>main\<close> returns is
  the exit status of the process), and what it has written to standard error.\<close>

definition exit_status :: "halt + int \<times> world \<Rightarrow> int option" where
  "exit_status r =
     (case r of
        Inl (Exit n w) \<Rightarrow> Some n
      | Inl (Replaced exe args w) \<Rightarrow> None
      | Inl (Undefined w) \<Rightarrow> None
      | Inr (rc, w) \<Rightarrow> Some rc)"

definition diagnostics :: "halt + int \<times> world \<Rightarrow> diag list" where
  "diagnostics r =
     (case r of
        Inl (Exit n w) \<Rightarrow> stderr w
      | Inl (Replaced exe args w) \<Rightarrow> stderr w
      | Inl (Undefined w) \<Rightarrow> stderr w
      | Inr (rc, w) \<Rightarrow> stderr w)"

text \<open>What an option loop leaves in \<open>noecho\<close> and in \<open>require_passphrase\<close> after it
  has read a list of options: \<open>noecho\<close> is set once any of them asks for it, and the last
  policy option decides \<open>require_passphrase\<close>, which keeps the value it had before the
  loop when there is none. The first argument of \<open>policy_after\<close> is the test of the
  command's options.\<close>

definition noecho_after :: "string list \<Rightarrow> bool" where
  "noecho_after opts = list_ex (\<lambda>a. envchain_set_option a = OptNoecho) opts"

definition policy_after :: "(string \<Rightarrow> cli_option) \<Rightarrow> string list \<Rightarrow> int \<Rightarrow> int" where
  "policy_after option opts require_passphrase =
     fold (\<lambda>a rp. case option a of
                     OptRequirePassphrase \<Rightarrow> 1
                   | OptNoRequirePassphrase \<Rightarrow> 0
                   | OptNoecho \<Rightarrow> rp
                   | OptUnknown \<Rightarrow> rp) opts require_passphrase"

text \<open>A list of global options in which \<open>--keychain\<close> and \<open>--keychain-dir\<close> each have
  their argument.\<close>

fun complete_global_options :: "string list \<Rightarrow> bool" where
  "complete_global_options [] = True"
| "complete_global_options (a # rest) =
     (case main_option a of
        OptKeychain \<Rightarrow> (case rest of [] \<Rightarrow> False | t # rest' \<Rightarrow> complete_global_options rest')
      | OptKeychainFromEnv \<Rightarrow> complete_global_options rest
      | OptKeychainDir \<Rightarrow> (case rest of [] \<Rightarrow> False | d # rest' \<Rightarrow> complete_global_options rest')
      | OptOther \<Rightarrow> False)"

section \<open>Facts about C strings\<close>

lemma of_char_0_iff: "int (of_char c) = 0 \<longleftrightarrow> c = CHR 0x00"
proof -
  have "of_char (CHR 0x00) = (0::nat)" by simp
  then have "of_char c = (0::nat) \<longleftrightarrow> c = CHR 0x00" by (metis of_char_eq_iff)
  then show ?thesis by simp
qed

lemma of_char_pos: "c \<noteq> CHR 0x00 \<Longrightarrow> 0 < int (of_char c)"
proof -
  assume "c \<noteq> CHR 0x00"
  then have "int (of_char c) \<noteq> 0" using of_char_0_iff [of c] by simp
  moreover have "0 \<le> int (of_char c)" by simp
  ultimately show ?thesis by linarith
qed

lemma strncmp_eq_0_iff:
  "CHR 0x00 \<notin> set b \<Longrightarrow> n \<le> length b \<Longrightarrow> strncmp a b n = 0 \<longleftrightarrow> take n a = take n b"
proof (induction a b n rule: strncmp.induct)
  case (1 a b)
  show ?case by simp
next
  case (2 n)
  show ?case by simp
next
  case (3 b bs n)
  then have "b \<noteq> CHR 0x00" by auto
  then show ?case using of_char_0_iff [of b] by simp
next
  case (4 a as n)
  then show ?case by simp
next
  case (5 a as b bs n)
  show ?case
  proof (cases "a = b")
    case True
    with 5 show ?thesis by simp
  next
    case False
    then show ?thesis by simp
  qed
qed

lemma strcmp_less_iff:
  "CHR 0x00 \<notin> set a \<Longrightarrow> CHR 0x00 \<notin> set b \<Longrightarrow> strcmp a b < 0 \<longleftrightarrow> a < b"
proof (induction a b rule: strcmp.induct)
  case 1
  show ?case by simp
next
  case (2 b bs)
  then have "b \<noteq> CHR 0x00" by auto
  then show ?case using of_char_pos [of b] by simp
next
  case (3 a as)
  then have "a \<noteq> CHR 0x00" by auto
  then show ?case using of_char_pos [of a] by simp
next
  case (4 a as b bs)
  show ?case
  proof (cases "a = b")
    case True
    with 4 show ?thesis by simp
  next
    case False
    then show ?thesis by (simp add: less_char_def)
  qed
qed

lemma strcmp_eq_0_iff:
  "CHR 0x00 \<notin> set a \<Longrightarrow> CHR 0x00 \<notin> set b \<Longrightarrow> strcmp a b = 0 \<longleftrightarrow> a = b"
proof (induction a b rule: strcmp.induct)
  case 1
  show ?case by simp
next
  case (2 b bs)
  then have "b \<noteq> CHR 0x00" by auto
  then show ?case using of_char_0_iff [of b] by simp
next
  case (3 a as)
  then have "a \<noteq> CHR 0x00" by auto
  then show ?case using of_char_0_iff [of a] by simp
next
  case (4 a as b bs)
  show ?case
  proof (cases "a = b")
    case True
    with 4 show ?thesis by simp
  next
    case False
    then show ?thesis by simp
  qed
qed

lemma strcmp_le_iff:
  "CHR 0x00 \<notin> set a \<Longrightarrow> CHR 0x00 \<notin> set b \<Longrightarrow> strcmp a b \<le> 0 \<longleftrightarrow> a \<le> b"
  using strcmp_less_iff [of a b] strcmp_eq_0_iff [of a b] by (auto simp: le_less)

section \<open>The service-identifier codec\<close>

lemma strip_service_prefix_eq:
  "strip_service_prefix key =
     (if prefix ENVCHAIN_SERVICE_PREFIX key
      then drop (length ENVCHAIN_SERVICE_PREFIX) key else key)"
proof -
  have nul: "CHR 0x00 \<notin> set ENVCHAIN_SERVICE_PREFIX"
    by (simp add: ENVCHAIN_SERVICE_PREFIX_def)
  have "strncmp key ENVCHAIN_SERVICE_PREFIX (length ENVCHAIN_SERVICE_PREFIX) = 0
          \<longleftrightarrow> take (length ENVCHAIN_SERVICE_PREFIX) key = ENVCHAIN_SERVICE_PREFIX"
    using strncmp_eq_0_iff [OF nul, of "length ENVCHAIN_SERVICE_PREFIX" key] by simp
  moreover have "take (length ENVCHAIN_SERVICE_PREFIX) key = ENVCHAIN_SERVICE_PREFIX
          \<longleftrightarrow> prefix ENVCHAIN_SERVICE_PREFIX key"
    by (metis append_eq_conv_conj prefix_def)
  ultimately show ?thesis by (simp add: strip_service_prefix_def)
qed

lemma strip_generated_service_name:
  "strip_service_prefix (envchain_generate_service_name name) = name"
  by (simp add: strip_service_prefix_eq envchain_generate_service_name_def)

lemma active_items_example_world [simp]: "active_items (example_world its) = its"
  by (simp add: active_items_def example_world_def)

lemma sec_fault_example_world [simp]: "sec_fault (example_world its) c = noErr"
  by (simp add: example_world_def)

lemma item_fields_example_item [simp]:
  "item_service (example_item s a d) = s"
  "item_account (example_item s a d) = a"
  "item_data (example_item s a d) = d"
  "item_description (example_item s a d) = Some ENVCHAIN_ITEM_DESCRIPTION"
  "item_decrypt_acls (example_item s a d) = [example_acl 0x0010]"
  by (simp_all add: example_item_def)

lemma applier_namespace:
  "ref < length (active_items w) \<Longrightarrow> sec_fault w (ItemCopyContent ref) = noErr \<Longrightarrow>
   envchain_search_values_applier (NamespaceCallback callback) ref (d, w) =
     callback (c_str (strip_service_prefix (item_service (active_items w ! ref)))) (d, w)"
  by (simp add: envchain_search_values_applier_def)

text \<open>C5, as amended. Stripping the service identifier generated for a namespace gives the
  namespace back, for every namespace. A service identifier that does not begin with the
  marker is not rejected: the stripping step leaves it as it is, and the applier still
  passes it (up to its first NUL) to the namespace callback.\<close>

theorem service_name_roundtrip:
  "strip_service_prefix (envchain_generate_service_name name) = name
   \<and> (\<not> prefix ENVCHAIN_SERVICE_PREFIX s \<longrightarrow> strip_service_prefix s = s)
   \<and> (\<not> prefix ENVCHAIN_SERVICE_PREFIX (item_service (active_items w ! ref))
        \<and> ref < length (active_items w) \<and> sec_fault w (ItemCopyContent ref) = noErr \<longrightarrow>
      envchain_search_values_applier (NamespaceCallback callback) ref (d, w) =
        callback (c_str (item_service (active_items w ! ref))) (d, w))"
proof (intro conjI impI)
  show "strip_service_prefix (envchain_generate_service_name name) = name"
    by (rule strip_generated_service_name)
next
  assume "\<not> prefix ENVCHAIN_SERVICE_PREFIX s"
  then show "strip_service_prefix s = s" by (simp add: strip_service_prefix_eq)
next
  assume a: "\<not> prefix ENVCHAIN_SERVICE_PREFIX (item_service (active_items w ! ref))
        \<and> ref < length (active_items w) \<and> sec_fault w (ItemCopyContent ref) = noErr"
  then have "strip_service_prefix (item_service (active_items w ! ref)) =
      item_service (active_items w ! ref)"
    by (simp add: strip_service_prefix_eq)
  with a show "envchain_search_values_applier (NamespaceCallback callback) ref (d, w) =
        callback (c_str (item_service (active_items w ! ref))) (d, w)"
    by (simp add: applier_namespace)
qed

theorem service_name_roundtrip_witness:
  "strip_service_prefix (envchain_generate_service_name ''db'') = ''db''
   \<and> strip_service_prefix ''keychain-db'' = ''keychain-db''
   \<and> envchain_search_values_applier (NamespaceCallback envchain_search_namespaces_uniqufier) 0
        ([], example_world [example_item ''keychain-db'' ''HOST'' ''localhost'']) =
      ([''keychain-db''], example_world [example_item ''keychain-db'' ''HOST'' ''localhost''])"
proof -
  have p: "\<not> prefix ENVCHAIN_SERVICE_PREFIX ''keychain-db''"
    by (simp add: ENVCHAIN_SERVICE_PREFIX_def)
  have c: "c_str ''keychain-db'' = ''keychain-db''"
    by (simp add: c_str_def)
  show ?thesis
    using p service_name_roundtrip [of "''db''" "''keychain-db''"
      "example_world [example_item ''keychain-db'' ''HOST'' ''localhost'']" 0
      envchain_search_namespaces_uniqufier "[]"]
    by (simp add: c envchain_search_namespaces_uniqufier_def)
qed

text \<open>C5 as stated fails: the service identifier \<open>other\<close> lacks the marker, and the
  applier hands the name \<open>other\<close> to the namespace callback.\<close>

theorem foreign_service_not_rejected:
  "\<not> prefix ENVCHAIN_SERVICE_PREFIX ''other''
   \<and> strip_service_prefix ''other'' = ''other''
   \<and> fst (envchain_search_values_applier
        (NamespaceCallback envchain_search_namespaces_uniqufier) 0
        ([], example_world [example_item ''other'' ''HOST'' ''localhost''])) = [''other'']"
proof -
  have p: "\<not> prefix ENVCHAIN_SERVICE_PREFIX ''other''"
    by (simp add: ENVCHAIN_SERVICE_PREFIX_def)
  have c: "c_str ''other'' = ''other''"
    by (simp add: c_str_def)
  show ?thesis
    using p
    by (simp add: c strip_service_prefix_eq applier_namespace
        envchain_search_namespaces_uniqufier_def)
qed

section \<open>Namespace inference\<close>

lemma dropWhile_flags_then_token:
  "list_all P flags \<Longrightarrow> \<not> P n \<Longrightarrow> dropWhile P (flags @ n # rest) = n # rest"
  by (induction flags) simp_all

lemma dropWhile_flags_only: "list_all P flags \<Longrightarrow> dropWhile P flags = []"
  by (induction flags) simp_all

lemma first_token_nonempty:
  "(case (case toks of [] \<Rightarrow> None | n # _ \<Rightarrow> Some n) of
      None \<Rightarrow> None | Some n \<Rightarrow> if n = [] then None else Some n) = nonempty_token toks"
  by (cases toks) (simp_all add: nonempty_token_def)

lemma namespace_from_argv_set:
  "namespace_command cmd = SetCommand \<Longrightarrow>
   envchain_namespace_from_argv (cmd # rest) = nonempty_token (dropWhile starts_with_dash rest)"
  by (simp add: envchain_namespace_from_argv_def first_token_nonempty)

lemma namespace_from_argv_unset:
  "namespace_command cmd = UnsetCommand \<Longrightarrow>
   envchain_namespace_from_argv (cmd # rest) = nonempty_token rest"
  by (simp add: envchain_namespace_from_argv_def first_token_nonempty)

lemma namespace_from_argv_list:
  "namespace_command cmd = ListCommand \<Longrightarrow>
   envchain_namespace_from_argv (cmd # rest) = nonempty_token (dropWhile is_show_value rest)"
  by (simp add: envchain_namespace_from_argv_def first_token_nonempty)

lemma namespace_from_argv_other:
  "namespace_command cmd = OtherCommand \<Longrightarrow>
   envchain_namespace_from_argv (cmd # rest) =
     (if starts_with_dash cmd \<or> has_comma cmd \<or> cmd = [] then None else Some cmd)"
  by (simp add: envchain_namespace_from_argv_def)

lemma nonempty_token_neq: "nonempty_token toks \<noteq> Some []"
  by (cases toks) (simp_all add: nonempty_token_def)

lemma namespace_from_argv_nonempty: "envchain_namespace_from_argv argv \<noteq> Some []"
proof (cases argv)
  case Nil
  then show ?thesis by (simp add: envchain_namespace_from_argv_def)
next
  case (Cons cmd rest)
  show ?thesis
  proof (cases "namespace_command cmd")
    case SetCommand
    then show ?thesis using Cons by (simp add: namespace_from_argv_set nonempty_token_neq)
  next
    case UnsetCommand
    then show ?thesis using Cons by (simp add: namespace_from_argv_unset nonempty_token_neq)
  next
    case ListCommand
    then show ?thesis using Cons by (simp add: namespace_from_argv_list nonempty_token_neq)
  next
    case OtherCommand
    then show ?thesis using Cons by (simp add: namespace_from_argv_other)
  qed
qed

lemma namespace_from_argv_examples:
  "envchain_namespace_from_argv [''--set'', ''-n'', ''db'', ''HOST''] = Some ''db''"
  "envchain_namespace_from_argv [''--unset'', ''db'', ''HOST''] = Some ''db''"
  "envchain_namespace_from_argv [''--list'', ''-v''] = None"
  "envchain_namespace_from_argv [''db,web'', ''bash''] = None"
  "envchain_namespace_from_argv [''db'', ''bash''] = Some ''db''"
  by (simp_all add: envchain_namespace_from_argv_def namespace_command_def
      starts_with_dash_def is_show_value_def has_comma_def)

lemma namespace_command_values:
  "namespace_command ''--set'' = SetCommand"
  "namespace_command ''-s'' = SetCommand"
  "namespace_command ''--set-access'' = SetCommand"
  "namespace_command ''--unset'' = UnsetCommand"
  "namespace_command ''--list'' = ListCommand"
  "namespace_command ''-l'' = ListCommand"
  by (simp_all add: namespace_command_def)

text \<open>C6. The five inferences the specification lists, and the rules behind them: after a
  set or set-access command the leading tokens that start with \<open>-\<close> are skipped and the
  next token is the namespace; after unset it is the token at index 1; after list the
  value-display flags are skipped; a first token that is no option is the namespace unless
  it contains a comma; any other option infers nothing. An empty or absent token gives
  \<open>None\<close>, so the result is never the empty namespace.\<close>

theorem namespace_inference:
  "envchain_namespace_from_argv [''--set'', ''-n'', ''db'', ''HOST''] = Some ''db''
   \<and> envchain_namespace_from_argv [''--unset'', ''db'', ''HOST''] = Some ''db''
   \<and> envchain_namespace_from_argv [''--list'', ''-v''] = None
   \<and> envchain_namespace_from_argv [''db,web'', ''bash''] = None
   \<and> envchain_namespace_from_argv [''db'', ''bash''] = Some ''db''
   \<and> envchain_namespace_from_argv [] = None
   \<and> envchain_namespace_from_argv argv \<noteq> Some []
   \<and> (namespace_command cmd = SetCommand \<and> list_all starts_with_dash flags
        \<and> \<not> starts_with_dash n \<longrightarrow>
      envchain_namespace_from_argv (cmd # flags @ n # rest) =
        (if n = [] then None else Some n))
   \<and> (namespace_command cmd = SetCommand \<and> list_all starts_with_dash flags \<longrightarrow>
      envchain_namespace_from_argv (cmd # flags) = None)
   \<and> (namespace_command cmd = UnsetCommand \<longrightarrow>
      envchain_namespace_from_argv (cmd # n # rest) = (if n = [] then None else Some n)
      \<and> envchain_namespace_from_argv [cmd] = None)
   \<and> (namespace_command cmd = ListCommand \<and> list_all is_show_value flags
        \<and> \<not> is_show_value n \<longrightarrow>
      envchain_namespace_from_argv (cmd # flags @ n # rest) =
        (if n = [] then None else Some n))
   \<and> (namespace_command cmd = ListCommand \<and> list_all is_show_value flags \<longrightarrow>
      envchain_namespace_from_argv (cmd # flags) = None)
   \<and> (namespace_command cmd = OtherCommand \<longrightarrow>
      envchain_namespace_from_argv (cmd # rest) =
        (if starts_with_dash cmd \<or> has_comma cmd \<or> cmd = [] then None else Some cmd))
   \<and> namespace_command ''--set'' = SetCommand \<and> namespace_command ''-s'' = SetCommand
   \<and> namespace_command ''--set-access'' = SetCommand
   \<and> namespace_command ''--unset'' = UnsetCommand
   \<and> namespace_command ''--list'' = ListCommand \<and> namespace_command ''-l'' = ListCommand"
proof -
  have set1: "envchain_namespace_from_argv (cmd # flags @ n # rest) =
        (if n = [] then None else Some n)"
    if "namespace_command cmd = SetCommand \<and> list_all starts_with_dash flags
        \<and> \<not> starts_with_dash n"
    using that
    by (simp add: namespace_from_argv_set dropWhile_flags_then_token nonempty_token_def)
  have set2: "envchain_namespace_from_argv (cmd # flags) = None"
    if "namespace_command cmd = SetCommand \<and> list_all starts_with_dash flags"
    using that by (simp add: namespace_from_argv_set dropWhile_flags_only nonempty_token_def)
  have unset: "envchain_namespace_from_argv (cmd # n # rest) = (if n = [] then None else Some n)
      \<and> envchain_namespace_from_argv [cmd] = None"
    if "namespace_command cmd = UnsetCommand"
    using that by (simp add: namespace_from_argv_unset nonempty_token_def)
  have list1: "envchain_namespace_from_argv (cmd # flags @ n # rest) =
        (if n = [] then None else Some n)"
    if "namespace_command cmd = ListCommand \<and> list_all is_show_value flags
        \<and> \<not> is_show_value n"
    using that
    by (simp add: namespace_from_argv_list dropWhile_flags_then_token nonempty_token_def)
  have list2: "envchain_namespace_from_argv (cmd # flags) = None"
    if "namespace_command cmd = ListCommand \<and> list_all is_show_value flags"
    using that by (simp add: namespace_from_argv_list dropWhile_flags_only nonempty_token_def)
  have other: "envchain_namespace_from_argv (cmd # rest) =
        (if starts_with_dash cmd \<or> has_comma cmd \<or> cmd = [] then None else Some cmd)"
    if "namespace_command cmd = OtherCommand"
    using that by (rule namespace_from_argv_other)
  have nil: "envchain_namespace_from_argv [] = None"
    by (simp add: envchain_namespace_from_argv_def)
  show ?thesis
    using set1 set2 unset list1 list2 other nil namespace_from_argv_nonempty [of argv]
      namespace_from_argv_examples namespace_command_values
    by blast
qed

theorem namespace_inference_witness:
  "envchain_namespace_from_argv [''-s'', ''-p'', ''-n'', ''web'', ''TOKEN''] = Some ''web''
   \<and> envchain_namespace_from_argv [''-s'', ''-p'', ''-n''] = None
   \<and> envchain_namespace_from_argv [''--unset'', ''web'', ''TOKEN''] = Some ''web''
   \<and> envchain_namespace_from_argv [''-l'', ''-v'', ''--show-value'', ''web''] = Some ''web''
   \<and> envchain_namespace_from_argv [''-l'', ''-v'', ''--show-value''] = None
   \<and> envchain_namespace_from_argv [''web'', ''env''] = Some ''web''
   \<and> envchain_namespace_from_argv [''--keychain'', ''web''] = None"
proof -
  have flags: "list_all starts_with_dash [''-p'', ''-n'']" "\<not> starts_with_dash ''web''"
    by (simp_all add: starts_with_dash_def)
  have sv: "list_all is_show_value [''-v'', ''--show-value'']" "\<not> is_show_value ''web''"
    by (simp_all add: is_show_value_def)
  have other: "namespace_command ''web'' = OtherCommand"
    "namespace_command ''--keychain'' = OtherCommand"
    "\<not> has_comma ''web''" "starts_with_dash ''--keychain''"
    by (simp_all add: namespace_command_def has_comma_def starts_with_dash_def)
  have cmds: "namespace_command ''-s'' = SetCommand" "namespace_command ''-l'' = ListCommand"
    "namespace_command ''--unset'' = UnsetCommand"
    by (simp_all add: namespace_command_def)
  from namespace_inference [where cmd = "''-s''" and flags = "[''-p'', ''-n'']" and n = "''web''" and rest = "[''TOKEN'']"]
  have a: "envchain_namespace_from_argv [''-s'', ''-p'', ''-n'', ''web'', ''TOKEN''] = Some ''web''
     \<and> envchain_namespace_from_argv [''-s'', ''-p'', ''-n''] = None"
    using flags cmds by simp
  from namespace_inference [where cmd = "''--unset''" and flags = "[]" and n = "''web''" and rest = "[''TOKEN'']"]
  have b: "envchain_namespace_from_argv [''--unset'', ''web'', ''TOKEN''] = Some ''web''"
    using cmds by simp
  from namespace_inference [where cmd = "''-l''" and flags = "[''-v'', ''--show-value'']" and n = "''web''" and rest = "[]"]
  have c: "envchain_namespace_from_argv [''-l'', ''-v'', ''--show-value'', ''web''] = Some ''web''
     \<and> envchain_namespace_from_argv [''-l'', ''-v'', ''--show-value''] = None"
    using sv cmds by simp
  from namespace_inference [where cmd = "''web''" and flags = "[]" and n = "[]" and rest = "[''env'']"]
  have d: "envchain_namespace_from_argv [''web'', ''env''] = Some ''web''"
    using other by (simp add: starts_with_dash_def)
  from namespace_inference [where cmd = "''--keychain''" and flags = "[]" and n = "[]" and rest = "[''web'']"]
  have e: "envchain_namespace_from_argv [''--keychain'', ''web''] = None"
    using other by simp
  from a b c d e show ?thesis by simp
qed

section \<open>Enumeration of namespaces\<close>

lemma c_str_no_nul: "CHR 0x00 \<notin> set (c_str buf)"
  using set_takeWhileD [of "CHR 0x00" "\<lambda>c. c \<noteq> CHR 0x00" buf] by (auto simp: c_str_def)

lemma qsort_insert_insort:
  "CHR 0x00 \<notin> set x \<Longrightarrow> \<forall>y\<in>set ys. CHR 0x00 \<notin> set y \<Longrightarrow>
   qsort_insert envchain_sortcmp_str x ys = insort x ys"
  by (induction ys) (simp_all add: envchain_sortcmp_str_def strcmp_le_iff)

lemma qsort_sort:
  "\<forall>x\<in>set xs. CHR 0x00 \<notin> set x \<Longrightarrow> qsort envchain_sortcmp_str xs = sort xs"
proof (induction xs)
  case Nil
  show ?case by (simp add: qsort_def)
next
  case (Cons x xs)
  then have "qsort envchain_sortcmp_str xs = sort xs" by simp
  moreover have "\<forall>y\<in>set (sort xs). CHR 0x00 \<notin> set y" using Cons.prems by simp
  ultimately show ?case
    using Cons.prems qsort_insert_insort [of x "sort xs"]
    by (simp add: qsort_def sort_key_def)
qed

lemma sorted_remdups_adj_distinct: "sorted xs \<Longrightarrow> distinct (remdups_adj xs)"
  by (induction xs rule: remdups_adj.induct) auto

lemma emit_distinct_fold:
  "emit_distinct callback prev ns dw =
     fold callback
       (case prev of None \<Rightarrow> remdups_adj ns | Some p \<Rightarrow> tl (remdups_adj (p # ns))) dw"
proof (induction ns arbitrary: prev dw)
  case Nil
  show ?case by (cases prev) simp_all
next
  case (Cons n ns)
  show ?case
  proof (cases prev)
    case None
    have "remdups_adj (n # ns) = n # tl (remdups_adj (n # ns))" by simp
    then have "fold callback (remdups_adj (n # ns)) dw =
        fold callback (tl (remdups_adj (n # ns))) (callback n dw)"
      by (metis fold_simps(2))
    with None show ?thesis by (simp add: Cons.IH)
  next
    case (Some p)
    show ?thesis
    proof (cases "p = n")
      case True
      with Some show ?thesis by (simp add: Cons.IH)
    next
      case False
      have "remdups_adj (n # ns) = n # tl (remdups_adj (n # ns))" by simp
      then have "fold callback (remdups_adj (n # ns)) dw =
          fold callback (tl (remdups_adj (n # ns))) (callback n dw)"
        by (metis fold_simps(2))
      with Some False show ?thesis by (simp add: Cons.IH)
    qed
  qed
qed

lemma matching_refs_items:
  "map ((!) xs) (filter (\<lambda>i. P (xs ! i)) [0 ..< length xs]) = filter P xs"
proof -
  have "filter P (map ((!) xs) [0 ..< length xs]) =
      map ((!) xs) (filter (P \<circ> (!) xs) [0 ..< length xs])"
    by (rule filter_map)
  then show ?thesis by (simp add: map_nth comp_def)
qed

lemma fold_applier_uniqufier:
  "\<forall>r\<in>set refs. r < length (active_items w) \<and> sec_fault w (ItemCopyContent r) = noErr \<Longrightarrow>
   fold (envchain_search_values_applier
          (NamespaceCallback envchain_search_namespaces_uniqufier)) refs (names, w) =
     (names @ map (\<lambda>r. c_str (strip_service_prefix (item_service (active_items w ! r)))) refs, w)"
  by (induction refs arbitrary: names)
     (simp_all add: applier_namespace envchain_search_namespaces_uniqufier_def)

lemma search_namespaces_result:
  assumes "sec_fault w ItemCopyMatching = noErr"
    and "\<forall>i<length (active_items w). sec_fault w (ItemCopyContent i) = noErr"
  shows "envchain_search_namespaces callback d w =
     Inr (0, fold callback (remdups_adj (qsort envchain_sortcmp_str (backend_namespaces w)))
               (d, w))"
proof -
  define refs where "refs = filter
     (\<lambda>i. query_matches (ByDescription ENVCHAIN_ITEM_DESCRIPTION) (active_items w ! i))
     [0 ..< length (active_items w)]"
  have names: "map (\<lambda>r. c_str (strip_service_prefix (item_service (active_items w ! r)))) refs =
      backend_namespaces w"
  proof -
    have "map (\<lambda>r. c_str (strip_service_prefix (item_service (active_items w ! r)))) refs =
        map (\<lambda>it. c_str (strip_service_prefix (item_service it))) (map ((!) (active_items w)) refs)"
      by (simp add: comp_def)
    also have "map ((!) (active_items w)) refs = tagged_items w"
      unfolding refs_def tagged_items_def by (rule matching_refs_items)
    finally show ?thesis by (simp add: backend_namespaces_def)
  qed
  have ok: "\<forall>r\<in>set refs. r < length (active_items w) \<and> sec_fault w (ItemCopyContent r) = noErr"
    using assms(2) by (auto simp: refs_def)
  have fold: "fold (envchain_search_values_applier
          (NamespaceCallback envchain_search_namespaces_uniqufier)) refs ([], w) =
       (backend_namespaces w, w)"
    using fold_applier_uniqufier [OF ok, of "[]"] names by simp
  have len: "length (backend_namespaces w) = length refs"
    using names by (metis length_map)
  show ?thesis
  proof (cases "refs = []")
    case True
    then have "backend_namespaces w = []" using len by simp
    with True assms(1) show ?thesis
      by (simp add: envchain_search_namespaces_def SecItemCopyMatching_def refs_def [symmetric]
          qsort_def del: query_matches.simps)
  next
    case False
    with assms(1) show ?thesis
      by (simp add: envchain_search_namespaces_def SecItemCopyMatching_def refs_def [symmetric]
          fold len emit_distinct_fold noErr_def errSecItemNotFound_def
          del: query_matches.simps)
  qed
qed

lemma backend_namespaces_no_nul: "\<forall>n\<in>set (backend_namespaces w). CHR 0x00 \<notin> set n"
  by (simp add: backend_namespaces_def c_str_no_nul)

lemma sorted_wrt_strcmp_le:
  "\<forall>x\<in>set xs. CHR 0x00 \<notin> set x \<Longrightarrow>
   sorted_wrt (\<lambda>a b. envchain_sortcmp_str a b \<le> 0) xs \<longleftrightarrow> sorted xs"
  by (induction xs) (auto simp: envchain_sortcmp_str_def strcmp_le_iff)

lemma sorted_wrt_strcmp_less:
  "\<forall>x\<in>set xs. CHR 0x00 \<notin> set x \<Longrightarrow>
   sorted_wrt (\<lambda>a b. envchain_sortcmp_str a b < 0) xs \<longleftrightarrow> sorted_wrt (<) xs"
  by (induction xs) (auto simp: envchain_sortcmp_str_def strcmp_less_iff)

text \<open>The model of \<open>qsort\<close> loses nothing: any rearrangement of the names that is
  ordered by the comparator is the one insertion sort computes.\<close>

lemma qsort_any_algorithm:
  assumes "\<forall>x\<in>set xs. CHR 0x00 \<notin> set x" and "mset ys = mset xs"
    and "sorted_wrt (\<lambda>a b. envchain_sortcmp_str a b \<le> 0) ys"
  shows "ys = qsort envchain_sortcmp_str xs"
proof -
  have "set ys = set xs" using assms(2) by (metis set_mset_mset)
  with assms(1) have nul: "\<forall>x\<in>set ys. CHR 0x00 \<notin> set x" by simp
  from assms(3) have "sorted ys" using sorted_wrt_strcmp_le [OF nul] by simp
  with assms(2) have "sort xs = ys" by (rule properties_for_sort)
  then show ?thesis using qsort_sort [OF assms(1)] by simp
qed

lemma emitted_namespaces_sorted:
  "sorted_wrt (\<lambda>a b. envchain_sortcmp_str a b \<le> 0)
     (qsort envchain_sortcmp_str (backend_namespaces w))
   \<and> sorted_wrt (\<lambda>a b. envchain_sortcmp_str a b < 0)
     (remdups_adj (qsort envchain_sortcmp_str (backend_namespaces w)))
   \<and> distinct (remdups_adj (qsort envchain_sortcmp_str (backend_namespaces w)))
   \<and> set (remdups_adj (qsort envchain_sortcmp_str (backend_namespaces w))) =
       set (backend_namespaces w)"
proof -
  have q: "qsort envchain_sortcmp_str (backend_namespaces w) = sort (backend_namespaces w)"
    by (rule qsort_sort [OF backend_namespaces_no_nul])
  have nul: "\<forall>x\<in>set (sort (backend_namespaces w)). CHR 0x00 \<notin> set x"
    using backend_namespaces_no_nul [of w] by simp
  have nul2: "\<forall>x\<in>set (remdups_adj (sort (backend_namespaces w))). CHR 0x00 \<notin> set x"
    using backend_namespaces_no_nul [of w] by simp
  have s: "sorted (remdups_adj (sort (backend_namespaces w)))"
    by simp
  have d: "distinct (remdups_adj (sort (backend_namespaces w)))"
    by (simp add: sorted_remdups_adj_distinct)
  from s d have "sorted_wrt (<) (remdups_adj (sort (backend_namespaces w)))"
    by (simp add: strict_sorted_iff)
  then have "sorted_wrt (\<lambda>a b. envchain_sortcmp_str a b < 0)
      (remdups_adj (sort (backend_namespaces w)))"
    using sorted_wrt_strcmp_less [OF nul2] by simp
  moreover have "sorted_wrt (\<lambda>a b. envchain_sortcmp_str a b \<le> 0) (sort (backend_namespaces w))"
    using sorted_wrt_strcmp_le [OF nul] by simp
  ultimately show ?thesis using d by (simp add: q)
qed

text \<open>C3. When the backend's reads succeed, \<open>envchain_search_namespaces\<close> calls its
  callback on the names the backend produced, sorted with \<open>qsort\<close> first and then with
  every name equal to its predecessor skipped. The names it calls the callback with are
  strictly ascending in the order of \<open>strcmp\<close>, so none occurs twice, and they are
  exactly the distinct names the backend produced.\<close>

theorem list_namespaces_sorted_distinct:
  assumes "sec_fault w ItemCopyMatching = noErr"
    and "\<forall>i<length (active_items w). sec_fault w (ItemCopyContent i) = noErr"
  shows "envchain_search_namespaces callback d w =
       Inr (0, fold callback
                 (remdups_adj (qsort envchain_sortcmp_str (backend_namespaces w))) (d, w))
     \<and> sorted_wrt (\<lambda>a b. envchain_sortcmp_str a b \<le> 0)
         (qsort envchain_sortcmp_str (backend_namespaces w))
     \<and> sorted_wrt (\<lambda>a b. envchain_sortcmp_str a b < 0)
         (remdups_adj (qsort envchain_sortcmp_str (backend_namespaces w)))
     \<and> distinct (remdups_adj (qsort envchain_sortcmp_str (backend_namespaces w)))
     \<and> set (remdups_adj (qsort envchain_sortcmp_str (backend_namespaces w))) =
         set (backend_namespaces w)"
  using search_namespaces_result [OF assms, of callback d] emitted_namespaces_sorted [of w]
  by simp

lemma example_namespaces:
  "backend_namespaces (example_world
      [example_item ''envchain-web'' ''TOKEN'' ''t'', example_item ''envchain-db'' ''HOST'' ''h'',
       example_item ''envchain-web'' ''USER'' ''u'']) = [''web'', ''db'', ''web'']"
  by (simp add: backend_namespaces_def tagged_items_def strip_service_prefix_eq
      ENVCHAIN_SERVICE_PREFIX_def c_str_def)

lemma example_sort:
  "qsort envchain_sortcmp_str [''web'', ''db'', ''web''] = [''db'', ''web'', ''web'']"
  by (simp add: qsort_def envchain_sortcmp_str_def)

theorem list_namespaces_sorted_distinct_witness:
  "envchain_search_namespaces envchain_list_namespace_callback
     \<lparr>target = None, show_value = False\<rparr>
     (example_world
       [example_item ''envchain-web'' ''TOKEN'' ''t'', example_item ''envchain-db'' ''HOST'' ''h'',
        example_item ''envchain-web'' ''USER'' ''u'']) =
   Inr (0, \<lparr>target = None, show_value = False\<rparr>,
        print ''web'' (print ''db'' (example_world
       [example_item ''envchain-web'' ''TOKEN'' ''t'', example_item ''envchain-db'' ''HOST'' ''h'',
        example_item ''envchain-web'' ''USER'' ''u''])))"
  using list_namespaces_sorted_distinct [of "example_world
       [example_item ''envchain-web'' ''TOKEN'' ''t'', example_item ''envchain-db'' ''HOST'' ''h'',
        example_item ''envchain-web'' ''USER'' ''u'']" envchain_list_namespace_callback
       "\<lparr>target = None, show_value = False\<rparr>"]
  by (simp add: example_namespaces example_sort envchain_list_namespace_callback_def)

text \<open>C4, as amended. No tagged entry is skipped: when the backend's reads succeed, the
  names the callback is called with are the names of all entries that carry the
  description tag, where the name of an entry is its service identifier without the marker
  when it begins with the marker, and its whole service identifier otherwise (each up to
  its first NUL).\<close>

theorem list_namespaces_keeps_foreign:
  assumes "sec_fault w ItemCopyMatching = noErr"
    and "\<forall>i<length (active_items w). sec_fault w (ItemCopyContent i) = noErr"
  shows "envchain_search_namespaces callback d w =
       Inr (0, fold callback
                 (remdups_adj (qsort envchain_sortcmp_str (backend_namespaces w))) (d, w))
     \<and> set (remdups_adj (qsort envchain_sortcmp_str (backend_namespaces w))) =
         (\<lambda>it. c_str (strip_service_prefix (item_service it))) ` set (tagged_items w)
     \<and> (\<forall>it\<in>set (tagged_items w).
           c_str (if prefix ENVCHAIN_SERVICE_PREFIX (item_service it)
                  then drop (length ENVCHAIN_SERVICE_PREFIX) (item_service it)
                  else item_service it)
           \<in> set (remdups_adj (qsort envchain_sortcmp_str (backend_namespaces w))))"
proof -
  have "set (remdups_adj (qsort envchain_sortcmp_str (backend_namespaces w))) =
      (\<lambda>it. c_str (strip_service_prefix (item_service it))) ` set (tagged_items w)"
    using emitted_namespaces_sorted [of w] by (simp add: backend_namespaces_def)
  then show ?thesis
    using search_namespaces_result [OF assms, of callback d]
    by (simp add: strip_service_prefix_eq)
qed

theorem list_namespaces_keeps_foreign_witness:
  "envchain_search_namespaces envchain_list_namespace_callback
     \<lparr>target = None, show_value = False\<rparr>
     (example_world
       [example_item ''mail'' ''alice'' ''p'', example_item ''envchain-db'' ''HOST'' ''h'']) =
   Inr (0, \<lparr>target = None, show_value = False\<rparr>,
        print ''mail'' (print ''db'' (example_world
       [example_item ''mail'' ''alice'' ''p'', example_item ''envchain-db'' ''HOST'' ''h''])))"
proof -
  have n: "backend_namespaces (example_world
       [example_item ''mail'' ''alice'' ''p'', example_item ''envchain-db'' ''HOST'' ''h'']) =
      [''mail'', ''db'']"
    by (simp add: backend_namespaces_def tagged_items_def strip_service_prefix_eq
        ENVCHAIN_SERVICE_PREFIX_def c_str_def)
  have q: "qsort envchain_sortcmp_str [''mail'', ''db''] = [''db'', ''mail'']"
    by (simp add: qsort_def envchain_sortcmp_str_def)
  show ?thesis
    using list_namespaces_keeps_foreign [of "example_world
       [example_item ''mail'' ''alice'' ''p'', example_item ''envchain-db'' ''HOST'' ''h'']"
       envchain_list_namespace_callback "\<lparr>target = None, show_value = False\<rparr>"]
    by (simp add: n q envchain_list_namespace_callback_def)
qed

text \<open>C4 as stated fails: an entry that carries the description tag and whose service
  identifier \<open>other\<close> lacks the marker is printed by \<open>envchain --list\<close>.\<close>

theorem foreign_entry_listed:
  "\<not> prefix ENVCHAIN_SERVICE_PREFIX ''other''
   \<and> envchain_list [] (example_world [example_item ''other'' ''HOST'' ''localhost'']) =
     Inr (0, print ''other'' (example_world [example_item ''other'' ''HOST'' ''localhost'']))"
proof -
  have n: "backend_namespaces (example_world [example_item ''other'' ''HOST'' ''localhost'']) =
      [''other'']"
    by (simp add: backend_namespaces_def tagged_items_def strip_service_prefix_eq
        ENVCHAIN_SERVICE_PREFIX_def c_str_def)
  have "envchain_search_namespaces envchain_list_namespace_callback
      \<lparr>target = None, show_value = False\<rparr>
      (example_world [example_item ''other'' ''HOST'' ''localhost'']) =
    Inr (0, \<lparr>target = None, show_value = False\<rparr>,
      print ''other'' (example_world [example_item ''other'' ''HOST'' ''localhost'']))"
    using search_namespaces_result [of "example_world [example_item ''other'' ''HOST'' ''localhost'']"
        envchain_list_namespace_callback "\<lparr>target = None, show_value = False\<rparr>"]
    by (simp add: n qsort_def envchain_list_namespace_callback_def)
  then show ?thesis
    by (simp add: envchain_list_def ENVCHAIN_SERVICE_PREFIX_def)
qed

section \<open>The access policy\<close>

lemma self_trusted_app_list:
  "exec_path w = Some e \<Longrightarrow> realpath w e = Some r \<Longrightarrow>
   sec_fault w (TrustedApplicationCreateFromPath e) = noErr \<Longrightarrow>
   sec_fault w (TrustedApplicationCreateFromPath r) = noErr \<Longrightarrow>
   envchain_self_trusted_app_list w = Inr (if e = r then [e] else [e, r])"
  by (simp add: envchain_self_trusted_app_list_def envchain_get_self_exec_path_def
      envchain_get_real_path_def)

lemma apply_item_access_require:
  assumes "sec_fault w ItemCopyAccess = noErr" "sec_fault w ACLCopyContents = noErr"
    "sec_fault w ACLSetContents = noErr" "sec_fault w ItemSetAccess = noErr"
    "ref < length (active_items w)"
    "item_decrypt_acls (active_items w ! ref) = acl # others"
  shows "envchain_apply_item_access ref 1 w =
     Inr (0, set_active_items ((active_items w)[ref := (active_items w ! ref)
        \<lparr>item_decrypt_acls :=
           acl\<lparr>acl_apps := Some [],
               acl_prompt := require_passphrase_prompt (acl_prompt acl)\<rparr> # others\<rparr>]) w)"
  using assms
  by (simp add: envchain_apply_item_access_def SecKeychainItemCopyAccess_def
      SecKeychainItemSetAccess_def)

lemma apply_item_access_trusted:
  assumes "sec_fault w ItemCopyAccess = noErr" "sec_fault w ACLCopyContents = noErr"
    "sec_fault w ACLSetContents = noErr" "sec_fault w ItemSetAccess = noErr"
    "ref < length (active_items w)"
    "item_decrypt_acls (active_items w ! ref) = acl # others"
    "require_passphrase \<noteq> 1"
    "exec_path w = Some e" "realpath w e = Some r"
    "sec_fault w (TrustedApplicationCreateFromPath e) = noErr"
    "sec_fault w (TrustedApplicationCreateFromPath r) = noErr"
  shows "envchain_apply_item_access ref require_passphrase w =
     Inr (0, set_active_items ((active_items w)[ref := (active_items w ! ref)
        \<lparr>item_decrypt_acls :=
           acl\<lparr>acl_apps := Some (if e = r then [e] else [e, r]), acl_prompt := 0\<rparr> # others\<rparr>]) w)"
  using assms
  by (simp add: envchain_apply_item_access_def SecKeychainItemCopyAccess_def
      SecKeychainItemSetAccess_def self_trusted_app_list)

lemma require_passphrase_prompt_bits:
  "require_passphrase_prompt p AND kSecKeychainPromptRequirePassphase =
     kSecKeychainPromptRequirePassphase"
  "require_passphrase_prompt 0 = 0x101"
  "p \<noteq> 0 \<Longrightarrow> require_passphrase_prompt p = p OR kSecKeychainPromptRequirePassphase"
  by (simp_all add: require_passphrase_prompt_def kSecKeychainPromptRequirePassphase_def
      word_bw_assocs)

lemma example_world_self [simp]:
  "exec_path (example_world its) = Some ''/usr/local/bin/envchain''"
  "realpath (example_world its) p = Some ''/opt/envchain/bin/envchain''"
  by (simp_all add: example_world_def)

text \<open>C1, as amended. On an item whose access can be read and written, with
  \<open>require_passphrase = 1\<close> the first decrypt ACL entry gets the empty application list
  and the prompt selector \<open>(if p = 0 then 0x100 else p) OR 0x0001\<close>, where \<open>p\<close> is the old
  selector: the require-passphrase flag is always set, and \<open>0x100\<close> is set when the old
  selector was 0. With \<open>require_passphrase = 0\<close> it gets the prompt selector 0 and the
  application list made of the executable path and, when it differs, the real path. In
  both cases the old application list does not enter the result.\<close>

theorem access_policy_applied:
  assumes "sec_fault w ItemCopyAccess = noErr" and "sec_fault w ACLCopyContents = noErr"
    and "sec_fault w ACLSetContents = noErr" and "sec_fault w ItemSetAccess = noErr"
    and "ref < length (active_items w)"
    and "item_decrypt_acls (active_items w ! ref) = acl # others"
  shows "envchain_apply_item_access ref 1 w =
       Inr (0, with_decrypt_acl ref
                 (acl\<lparr>acl_apps := Some [],
                      acl_prompt := (if acl_prompt acl = 0 then 0x100 else acl_prompt acl)
                                    OR kSecKeychainPromptRequirePassphase\<rparr>) w)
     \<and> ((if acl_prompt acl = 0 then 0x100 else acl_prompt acl)
          OR kSecKeychainPromptRequirePassphase) AND kSecKeychainPromptRequirePassphase =
         kSecKeychainPromptRequirePassphase
     \<and> (acl_prompt acl = 0 \<longrightarrow>
         (if acl_prompt acl = 0 then 0x100 else acl_prompt acl)
           OR kSecKeychainPromptRequirePassphase = 0x101)
     \<and> (exec_path w = Some e \<and> realpath w e = Some r
         \<and> sec_fault w (TrustedApplicationCreateFromPath e) = noErr
         \<and> sec_fault w (TrustedApplicationCreateFromPath r) = noErr \<longrightarrow>
         envchain_apply_item_access ref 0 w =
           Inr (0, with_decrypt_acl ref
                     (acl\<lparr>acl_apps := Some (if e = r then [e] else [e, r]),
                          acl_prompt := 0\<rparr>) w))"
proof (intro conjI impI)
  show "envchain_apply_item_access ref 1 w =
       Inr (0, with_decrypt_acl ref
                 (acl\<lparr>acl_apps := Some [],
                      acl_prompt := (if acl_prompt acl = 0 then 0x100 else acl_prompt acl)
                                    OR kSecKeychainPromptRequirePassphase\<rparr>) w)"
    using apply_item_access_require [OF assms]
    by (simp add: with_decrypt_acl_def assms(6) require_passphrase_prompt_def)
next
  show "((if acl_prompt acl = 0 then 0x100 else acl_prompt acl)
          OR kSecKeychainPromptRequirePassphase) AND kSecKeychainPromptRequirePassphase =
         kSecKeychainPromptRequirePassphase"
    using require_passphrase_prompt_bits(1) [of "acl_prompt acl"]
    by (simp add: require_passphrase_prompt_def)
next
  assume "acl_prompt acl = 0"
  then show "(if acl_prompt acl = 0 then 0x100 else acl_prompt acl)
           OR kSecKeychainPromptRequirePassphase = 0x101"
    by (simp add: kSecKeychainPromptRequirePassphase_def)
next
  assume "exec_path w = Some e \<and> realpath w e = Some r
         \<and> sec_fault w (TrustedApplicationCreateFromPath e) = noErr
         \<and> sec_fault w (TrustedApplicationCreateFromPath r) = noErr"
  then show "envchain_apply_item_access ref 0 w =
           Inr (0, with_decrypt_acl ref
                     (acl\<lparr>acl_apps := Some (if e = r then [e] else [e, r]),
                          acl_prompt := 0\<rparr>) w)"
    using apply_item_access_trusted [OF assms, of 0 e r]
    by (simp add: with_decrypt_acl_def assms(6))
qed

theorem access_policy_applied_witness:
  "envchain_apply_item_access 0 1 (example_world [example_item ''envchain-db'' ''HOST'' ''h'']) =
     Inr (0, with_decrypt_acl 0
               ((example_acl 0x0010)\<lparr>acl_apps := Some [], acl_prompt := 0x0011\<rparr>)
               (example_world [example_item ''envchain-db'' ''HOST'' ''h'']))
   \<and> envchain_apply_item_access 0 0 (example_world [example_item ''envchain-db'' ''HOST'' ''h'']) =
     Inr (0, with_decrypt_acl 0
               ((example_acl 0x0010)
                  \<lparr>acl_apps := Some [''/usr/local/bin/envchain'', ''/opt/envchain/bin/envchain''],
                   acl_prompt := 0\<rparr>)
               (example_world [example_item ''envchain-db'' ''HOST'' ''h'']))"
  using access_policy_applied [of "example_world [example_item ''envchain-db'' ''HOST'' ''h'']"
      0 "example_acl 0x0010" "[]" "''/usr/local/bin/envchain''" "''/opt/envchain/bin/envchain''"]
  by (simp add: example_acl_def kSecKeychainPromptRequirePassphase_def)

text \<open>C1 as stated fails: on an ACL entry whose prompt selector is \<open>0x0010\<close>, the
  require-passphrase policy leaves the selector \<open>0x0011\<close>, in which \<open>0x100\<close> is not
  set.\<close>

theorem always_prompt_flag_not_set:
  "envchain_apply_item_access 0 1 (example_world [example_item ''envchain-db'' ''HOST'' ''h'']) =
     Inr (0, with_decrypt_acl 0
               ((example_acl 0x0010)\<lparr>acl_apps := Some [], acl_prompt := 0x0011\<rparr>)
               (example_world [example_item ''envchain-db'' ''HOST'' ''h'']))
   \<and> (0x0011 :: 16 word) AND 0x100 = 0"
  using apply_item_access_require [of "example_world [example_item ''envchain-db'' ''HOST'' ''h'']"
      0 "example_acl 0x0010" "[]"]
  by (simp add: example_acl_def with_decrypt_acl_def require_passphrase_prompt_def
      kSecKeychainPromptRequirePassphase_def)

section \<open>Saving values\<close>

lemma find_item_None_iff: "find_item P xs = None \<longleftrightarrow> (\<forall>x\<in>set xs. \<not> P x)"
  by (induction xs) auto

lemma find_item_Some:
  "find_item P xs = Some i \<Longrightarrow> i < length xs \<and> P (xs ! i) \<and> (\<forall>j<i. \<not> P (xs ! j))"
proof (induction xs arbitrary: i)
  case Nil
  then show ?case by simp
next
  case (Cons x xs)
  show ?case
  proof (cases "P x")
    case True
    with Cons.prems show ?thesis by simp
  next
    case False
    with Cons.prems obtain k where k: "find_item P xs = Some k" "i = Suc k" by auto
    from Cons.IH [OF k(1)] have ih: "k < length xs" "P (xs ! k)" "\<forall>j<k. \<not> P (xs ! j)"
      by simp_all
    have "\<forall>j<Suc k. \<not> P ((x # xs) ! j)"
    proof (intro allI impI)
      fix j assume "j < Suc k"
      then show "\<not> P ((x # xs) ! j)" using False ih(3) by (cases j) simp_all
    qed
    with ih k show ?thesis by simp
  qed
qed

lemma find_item_append_new:
  "find_item P xs = None \<Longrightarrow> P x \<Longrightarrow> find_item P (xs @ [x]) = Some (length xs)"
  by (induction xs) (auto split: if_splits)

lemma find_item_update:
  "find_item P xs = Some i \<Longrightarrow> P y \<Longrightarrow> find_item P (xs[i := y]) = Some i"
proof (induction xs arbitrary: i)
  case Nil
  then show ?case by simp
next
  case (Cons x xs)
  show ?case
  proof (cases "P x")
    case True
    with Cons.prems show ?thesis by simp
  next
    case False
    with Cons.prems obtain k where k: "find_item P xs = Some k" "i = Suc k" by auto
    with Cons.IH [OF k(1) Cons.prems(2)] False show ?thesis by simp
  qed
qed

lemma active_items_set_active_items [simp]:
  "active_items (set_active_items its w) = its"
  by (simp add: active_items_def set_active_items_def)

lemma set_active_items_fields [simp]:
  "sec_fault (set_active_items its w) = sec_fault w"
  "new_item_acls (set_active_items its w) = new_item_acls w"
  "envchain_keychain (set_active_items its w) = envchain_keychain w"
  "stderr (set_active_items its w) = stderr w"
  "stdout (set_active_items its w) = stdout w"
  "environ (set_active_items its w) = environ w"
  "exec_path (set_active_items its w) = exec_path w"
  "realpath (set_active_items its w) = realpath w"
  by (simp_all add: set_active_items_def)

lemma set_active_items_twice [simp]:
  "set_active_items its (set_active_items its' w) = set_active_items its w"
  by (simp add: set_active_items_def)

lemma set_active_items_same:
  "its = active_items w \<Longrightarrow> set_active_items its w = w"
  by (simp add: set_active_items_def active_items_def)

lemma find_value_absent:
  "sec_fault w FindGenericPassword = noErr \<Longrightarrow>
   find_item (entry_matches name key) (active_items w) = None \<Longrightarrow>
   envchain_find_value name key w = Inr (0, None)"
  by (simp add: envchain_find_value_def SecKeychainFindGenericPassword_def
      entry_matches_def [abs_def] noErr_def errSecItemNotFound_def)

lemma find_value_present:
  "sec_fault w FindGenericPassword = noErr \<Longrightarrow>
   find_item (entry_matches name key) (active_items w) = Some i \<Longrightarrow>
   envchain_find_value name key w = Inr (1, Some i)"
  by (simp add: envchain_find_value_def SecKeychainFindGenericPassword_def
      entry_matches_def [abs_def] noErr_def errSecItemNotFound_def)

lemma save_value_new:
  assumes "sec_fault w FindGenericPassword = noErr" "sec_fault w AddGenericPassword = noErr"
    "sec_fault w ItemModifyAttributesAndData = noErr"
    "find_item (entry_matches name key) (active_items w) = None"
  shows "envchain_save_value name key val (- 1) w =
     Inr (set_active_items
            (active_items w @ [saved_entry name key val (new_item_acls w)]) w)"
proof -
  have add: "SecKeychainAddGenericPassword (envchain_generate_service_name name) key val w =
      (noErr, Some (length (active_items w)),
       set_active_items (active_items w @
         [\<lparr>item_service = envchain_generate_service_name name, item_account = key,
           item_data = val, item_description = None,
           item_decrypt_acls = new_item_acls w\<rparr>]) w)"
    using assms by (simp add: SecKeychainAddGenericPassword_def entry_matches_def [abs_def])
  show ?thesis
    using assms
    by (simp add: envchain_save_value_def find_value_absent add
        SecKeychainItemModifyAttributesAndData_def saved_entry_def)
qed

lemma save_value_existing:
  assumes "sec_fault w FindGenericPassword = noErr"
    "sec_fault w ItemModifyAttributesAndData = noErr"
    "find_item (entry_matches name key) (active_items w) = Some i"
  shows "envchain_save_value name key val (- 1) w =
     Inr (set_active_items
            ((active_items w)[i := (active_items w ! i)
               \<lparr>item_data := val, item_description := Some ENVCHAIN_ITEM_DESCRIPTION\<rparr>]) w)"
proof -
  have i: "i < length (active_items w)"
    using find_item_Some [OF assms(3)] by simp
  show ?thesis
    using assms i
    by (simp add: envchain_save_value_def find_value_present
        SecKeychainItemModifyAttributesAndData_def noErr_def)
qed

lemma filter_update_same:
  "i < length xs \<Longrightarrow> P (xs ! i) \<Longrightarrow> P y \<Longrightarrow>
   length (filter P (xs[i := y])) = length (filter P xs)"
proof (induction xs arbitrary: i)
  case Nil
  then show ?case by simp
next
  case (Cons x xs)
  show ?case
  proof (cases i)
    case 0
    with Cons.prems show ?thesis by simp
  next
    case (Suc k)
    with Cons.prems Cons.IH [of k] show ?thesis by simp
  qed
qed

lemma entry_matches_saved [simp]: "entry_matches name key (saved_entry name key val acls)"
  by (simp add: entry_matches_def saved_entry_def)

lemma saved_entry_fields [simp]:
  "item_data (saved_entry name key val acls) = val"
  "item_account (saved_entry name key val acls) = key"
  "item_service (saved_entry name key val acls) = envchain_generate_service_name name"
  "item_description (saved_entry name key val acls) = Some ENVCHAIN_ITEM_DESCRIPTION"
  "item_decrypt_acls (saved_entry name key val acls) = acls"
  by (simp_all add: saved_entry_def)

lemma update_to_saved_entry:
  "entry_matches name key it \<Longrightarrow>
   it\<lparr>item_data := val, item_description := Some ENVCHAIN_ITEM_DESCRIPTION\<rparr> =
     saved_entry name key val (item_decrypt_acls it)"
  by (cases it) (simp add: entry_matches_def saved_entry_def)

lemma filter_none: "find_item P xs = None \<Longrightarrow> filter P xs = []"
  by (simp add: find_item_None_iff)

lemma applier_search:
  "ref < length (active_items w) \<Longrightarrow> sec_fault w (ItemCopyContent ref) = noErr \<Longrightarrow>
   envchain_search_values_applier (SearchCallback callback) ref (d, w) =
     callback (c_str (item_account (active_items w ! ref)))
       (c_str (item_data (active_items w ! ref))) (d, w)"
  by (simp add: envchain_search_values_applier_def)

lemma save_value_result:
  assumes "sec_fault w FindGenericPassword = noErr" and "sec_fault w AddGenericPassword = noErr"
    and "sec_fault w ItemModifyAttributesAndData = noErr"
  shows "\<exists>w' i. envchain_save_value name key val (- 1) w = Inr w'
      \<and> find_item (entry_matches name key) (active_items w') = Some i
      \<and> (\<exists>acls. active_items w' ! i = saved_entry name key val acls)
      \<and> sec_fault w' = sec_fault w
      \<and> (find_item (entry_matches name key) (active_items w) = None \<longrightarrow>
           active_items w' = active_items w @ [saved_entry name key val (new_item_acls w)])
      \<and> (\<forall>j. find_item (entry_matches name key) (active_items w) = Some j \<longrightarrow>
           i = j \<and>
           active_items w' = (active_items w)[j :=
             saved_entry name key val (item_decrypt_acls (active_items w ! j))])
      \<and> length (filter (entry_matches name key) (active_items w')) =
          max 1 (length (filter (entry_matches name key) (active_items w)))"
proof (cases "find_item (entry_matches name key) (active_items w)")
  case None
  let ?w' = "set_active_items
      (active_items w @ [saved_entry name key val (new_item_acls w)]) w"
  have "envchain_save_value name key val (- 1) w = Inr ?w'"
    using save_value_new [OF assms None] .
  moreover have "find_item (entry_matches name key) (active_items ?w') =
      Some (length (active_items w))"
    using find_item_append_new [OF None, of "saved_entry name key val (new_item_acls w)"]
    by simp
  moreover have "length (filter (entry_matches name key) (active_items ?w')) =
      max 1 (length (filter (entry_matches name key) (active_items w)))"
    using filter_none [OF None] by simp
  ultimately show ?thesis using None by auto
next
  case (Some j)
  let ?its = "(active_items w)[j :=
      saved_entry name key val (item_decrypt_acls (active_items w ! j))]"
  let ?w' = "set_active_items ?its w"
  from find_item_Some [OF Some]
  have j: "j < length (active_items w)" "entry_matches name key (active_items w ! j)"
    by simp_all
  have "envchain_save_value name key val (- 1) w = Inr ?w'"
    using save_value_existing [OF assms(1,3) Some, of val] update_to_saved_entry [OF j(2), of val]
    by simp
  moreover have "find_item (entry_matches name key) (active_items ?w') = Some j"
    using find_item_update [OF Some, of "saved_entry name key val
      (item_decrypt_acls (active_items w ! j))"] by simp
  moreover have "length (filter (entry_matches name key) (active_items ?w')) =
      max 1 (length (filter (entry_matches name key) (active_items w)))"
  proof -
    have "length (filter (entry_matches name key) ?its) =
        length (filter (entry_matches name key) (active_items w))"
      using j by (simp add: filter_update_same)
    moreover have "active_items w ! j \<in> set (filter (entry_matches name key) (active_items w))"
      using j by simp
    then have "1 \<le> length (filter (entry_matches name key) (active_items w))"
      by (metis length_pos_if_in_set Suc_leI One_nat_def)
    then have "max 1 (length (filter (entry_matches name key) (active_items w))) =
        length (filter (entry_matches name key) (active_items w))"
      by (rule max.absorb2)
    ultimately show ?thesis by (simp only: active_items_set_active_items)
  qed
  ultimately show ?thesis using Some j by auto
qed

lemma save_value_again:
  assumes "sec_fault w FindGenericPassword = noErr"
    and "sec_fault w ItemModifyAttributesAndData = noErr"
    and "find_item (entry_matches name key) (active_items w) = Some i"
    and "active_items w ! i = saved_entry name key val acls"
  shows "envchain_save_value name key val (- 1) w = Inr w"
proof -
  have "(active_items w ! i)
      \<lparr>item_data := val, item_description := Some ENVCHAIN_ITEM_DESCRIPTION\<rparr> =
      active_items w ! i"
    using assms(4) by (simp add: saved_entry_def)
  then show ?thesis
    using save_value_existing [OF assms(1-3), of val]
    by (simp add: set_active_items_same)
qed

text \<open>C2. When the backend's find, add and modify calls succeed, saving a value with the
  policy left unspecified returns, and the entry that \<open>envchain_find_value\<close> then locates
  has exactly the saved value, the description tag, the generated service name and the
  key. Without an entry before, the new entry is appended; otherwise the entry found is
  updated in place. The number of entries for the namespace and key is 1 when it was at
  most 1, and saving the same value again changes nothing. Reading the located entry hands
  the key and the value to the search callback.\<close>

theorem save_then_find:
  assumes "sec_fault w FindGenericPassword = noErr" and "sec_fault w AddGenericPassword = noErr"
    and "sec_fault w ItemModifyAttributesAndData = noErr"
  shows "\<exists>w' i. envchain_save_value name key val (- 1) w = Inr w'
      \<and> envchain_find_value name key w' = Inr (1, Some i)
      \<and> i < length (active_items w')
      \<and> item_data (active_items w' ! i) = val
      \<and> item_description (active_items w' ! i) = Some ENVCHAIN_ITEM_DESCRIPTION
      \<and> item_service (active_items w' ! i) = envchain_generate_service_name name
      \<and> item_account (active_items w' ! i) = key
      \<and> (find_item (entry_matches name key) (active_items w) = None \<longrightarrow>
           active_items w' = active_items w @ [saved_entry name key val (new_item_acls w)])
      \<and> (\<forall>j. find_item (entry_matches name key) (active_items w) = Some j \<longrightarrow>
           i = j \<and>
           active_items w' = (active_items w)[j := (active_items w ! j)
             \<lparr>item_data := val, item_description := Some ENVCHAIN_ITEM_DESCRIPTION\<rparr>])
      \<and> length (filter (entry_matches name key) (active_items w')) =
          max 1 (length (filter (entry_matches name key) (active_items w)))
      \<and> envchain_save_value name key val (- 1) w' = Inr w'
      \<and> (sec_fault w (ItemCopyContent i) = noErr \<longrightarrow>
          (\<forall>callback d. envchain_search_values_applier (SearchCallback callback) i (d, w') =
             callback (c_str key) (c_str val) (d, w')))"
proof -
  from save_value_result [OF assms, of name key val]
  obtain w' where "\<exists>i. envchain_save_value name key val (- 1) w = Inr w'
      \<and> find_item (entry_matches name key) (active_items w') = Some i
      \<and> (\<exists>acls. active_items w' ! i = saved_entry name key val acls)
      \<and> sec_fault w' = sec_fault w
      \<and> (find_item (entry_matches name key) (active_items w) = None \<longrightarrow>
           active_items w' = active_items w @ [saved_entry name key val (new_item_acls w)])
      \<and> (\<forall>j. find_item (entry_matches name key) (active_items w) = Some j \<longrightarrow>
           i = j \<and>
           active_items w' = (active_items w)[j :=
             saved_entry name key val (item_decrypt_acls (active_items w ! j))])
      \<and> length (filter (entry_matches name key) (active_items w')) =
          max 1 (length (filter (entry_matches name key) (active_items w)))" ..
  then obtain i where c: "envchain_save_value name key val (- 1) w = Inr w'
      \<and> find_item (entry_matches name key) (active_items w') = Some i
      \<and> (\<exists>acls. active_items w' ! i = saved_entry name key val acls)
      \<and> sec_fault w' = sec_fault w
      \<and> (find_item (entry_matches name key) (active_items w) = None \<longrightarrow>
           active_items w' = active_items w @ [saved_entry name key val (new_item_acls w)])
      \<and> (\<forall>j. find_item (entry_matches name key) (active_items w) = Some j \<longrightarrow>
           i = j \<and>
           active_items w' = (active_items w)[j :=
             saved_entry name key val (item_decrypt_acls (active_items w ! j))])
      \<and> length (filter (entry_matches name key) (active_items w')) =
          max 1 (length (filter (entry_matches name key) (active_items w)))" ..
  note r = c [THEN conjunct1] c [THEN conjunct2, THEN conjunct1]
    c [THEN conjunct2, THEN conjunct2, THEN conjunct1]
    c [THEN conjunct2, THEN conjunct2, THEN conjunct2, THEN conjunct1]
    c [THEN conjunct2, THEN conjunct2, THEN conjunct2, THEN conjunct2, THEN conjunct1]
    c [THEN conjunct2, THEN conjunct2, THEN conjunct2, THEN conjunct2, THEN conjunct2,
       THEN conjunct1]
    c [THEN conjunct2, THEN conjunct2, THEN conjunct2, THEN conjunct2, THEN conjunct2,
       THEN conjunct2]
  have i: "i < length (active_items w')"
    using find_item_Some [OF r(2)] by simp
  have found: "envchain_find_value name key w' = Inr (1, Some i)"
    using find_value_present [of w' name key i] r(2,4) assms(1) by simp
  from r(3) obtain acls where acls: "active_items w' ! i = saved_entry name key val acls"
    by blast
  have fields: "item_data (active_items w' ! i) = val"
      "item_description (active_items w' ! i) = Some ENVCHAIN_ITEM_DESCRIPTION"
      "item_service (active_items w' ! i) = envchain_generate_service_name name"
      "item_account (active_items w' ! i) = key"
    by (simp_all add: acls)
  have upd: "\<forall>j. find_item (entry_matches name key) (active_items w) = Some j \<longrightarrow>
           i = j \<and>
           active_items w' = (active_items w)[j := (active_items w ! j)
             \<lparr>item_data := val, item_description := Some ENVCHAIN_ITEM_DESCRIPTION\<rparr>]"
  proof (intro allI impI)
    fix j assume j: "find_item (entry_matches name key) (active_items w) = Some j"
    from find_item_Some [OF j] have "entry_matches name key (active_items w ! j)" by simp
    from update_to_saved_entry [OF this, of val] r(6) j
    show "i = j \<and>
           active_items w' = (active_items w)[j := (active_items w ! j)
             \<lparr>item_data := val, item_description := Some ENVCHAIN_ITEM_DESCRIPTION\<rparr>]"
      by simp
  qed
  have again: "envchain_save_value name key val (- 1) w' = Inr w'"
    using save_value_again [of w' name key i val acls] r(2,4) acls assms by simp
  have read: "sec_fault w (ItemCopyContent i) = noErr \<longrightarrow>
          (\<forall>callback d. envchain_search_values_applier (SearchCallback callback) i (d, w') =
             callback (c_str key) (c_str val) (d, w'))"
    using i fields r(4) by (simp add: applier_search)
  show ?thesis
    by (intro exI [of _ w'] exI [of _ i] conjI)
       (use r(1) found i fields r(5) upd r(7) again read in simp_all)
qed

theorem save_then_find_witness:
  "\<exists>w'. envchain_save_value ''db'' ''HOST'' ''localhost'' (- 1) (example_world []) = Inr w'
      \<and> active_items w' = [saved_entry ''db'' ''HOST'' ''localhost'' [example_acl 0]]
      \<and> envchain_find_value ''db'' ''HOST'' w' = Inr (1, Some 0)
      \<and> envchain_save_value ''db'' ''HOST'' ''localhost'' (- 1) w' = Inr w'"
proof -
  have new: "new_item_acls (example_world []) = [example_acl 0]"
    by (simp add: example_world_def)
  have f: "sec_fault (example_world []) c = noErr" for c
    by simp
  show ?thesis
    using save_then_find [of "example_world []" "''db''" "''HOST''" "''localhost''", OF f f f]
    apply (elim exE conjE)
    subgoal for w' i
      apply (rule exI [of _ w'])
      apply (simp add: new)
      done
    done
qed

lemma set_options_keep_policy:
  "envchain_set_options argv noecho rp = Inr (args, noecho', rp') \<Longrightarrow>
   \<forall>a\<in>set argv. envchain_set_option a \<noteq> OptRequirePassphrase
     \<and> envchain_set_option a \<noteq> OptNoRequirePassphrase \<Longrightarrow>
   rp' = rp"
proof (induction argv noecho rp rule: envchain_set_options.induct)
  case (1 a b c rest noecho require_passphrase)
  show ?case
  proof (cases "starts_with_dash a")
    case False
    with "1.prems" show ?thesis by simp
  next
    case True
    show ?thesis
    proof (cases "envchain_set_option a")
      case OptNoecho
      with True "1.prems" "1.IH"(1) show ?thesis by simp
    next
      case OptRequirePassphrase
      with "1.prems" show ?thesis by simp
    next
      case OptNoRequirePassphrase
      with "1.prems" show ?thesis by simp
    next
      case OptUnknown
      with True "1.prems" show ?thesis by simp
    qed
  qed
qed simp_all

lemma active_items_sec_fault_update [simp]:
  "active_items (w\<lparr>sec_fault := f\<rparr>) = active_items w"
  by (simp add: active_items_def)

lemma map_acls_update_same:
  "j < length xs \<Longrightarrow> item_decrypt_acls y = item_decrypt_acls (xs ! j) \<Longrightarrow>
   map item_decrypt_acls (xs[j := y]) = map item_decrypt_acls xs"
  by (simp add: map_update list_update_same_conv)

lemma save_value_acls:
  assumes "sec_fault w FindGenericPassword = noErr" and "sec_fault w AddGenericPassword = noErr"
    and "sec_fault w ItemModifyAttributesAndData = noErr"
  shows "\<exists>w'. envchain_save_value name key val (- 1) w = Inr w'
     \<and> active_items w' =
         (case find_item (entry_matches name key) (active_items w) of
            None \<Rightarrow> active_items w @ [saved_entry name key val (new_item_acls w)]
          | Some j \<Rightarrow> (active_items w)[j := (active_items w ! j)
               \<lparr>item_data := val, item_description := Some ENVCHAIN_ITEM_DESCRIPTION\<rparr>])
     \<and> map item_decrypt_acls (active_items w') =
         map item_decrypt_acls (active_items w) @
           (case find_item (entry_matches name key) (active_items w) of
              None \<Rightarrow> [new_item_acls w] | Some j \<Rightarrow> [])"
proof (cases "find_item (entry_matches name key) (active_items w)")
  case None
  show ?thesis
    using save_value_new [OF assms None, of val] None by simp
next
  case (Some j)
  from find_item_Some [OF Some] have j: "j < length (active_items w)" by simp
  show ?thesis
    using save_value_existing [OF assms(1,3) Some, of val] Some j
    by (simp add: map_acls_update_same)
qed

text \<open>C8. When the backend's find, add and modify calls succeed, saving a value with the
  policy left unspecified returns and rewrites no ACL: every entry that existed keeps its
  ACL entries, and a new entry has the ones the backend gives to new entries. The ACL calls
  of the backend are not made: whatever status they would return, the save returns with
  the same entries. The request stays at \<open>- 1\<close> when the arguments of \<open>envchain_set\<close>
  hold neither \<open>-p\<close> nor \<open>-P\<close>, and that value is what \<open>envchain_set\<close> passes on.\<close>

theorem save_unspecified_keeps_acl:
  assumes "sec_fault w FindGenericPassword = noErr" and "sec_fault w AddGenericPassword = noErr"
    and "sec_fault w ItemModifyAttributesAndData = noErr"
  shows "\<exists>w'. envchain_save_value name key val (- 1) w = Inr w'
     \<and> map item_decrypt_acls (active_items w') =
         map item_decrypt_acls (active_items w) @
           (case find_item (entry_matches name key) (active_items w) of
              None \<Rightarrow> [new_item_acls w] | Some j \<Rightarrow> [])
     \<and> (\<forall>f. f FindGenericPassword = noErr \<and> f AddGenericPassword = noErr
            \<and> f ItemModifyAttributesAndData = noErr \<longrightarrow>
          (\<exists>w''. envchain_save_value name key val (- 1) (w\<lparr>sec_fault := f\<rparr>) = Inr w''
             \<and> active_items w'' = active_items w'))
     \<and> ((\<forall>a\<in>set argv. envchain_set_option a \<noteq> OptRequirePassphrase
            \<and> envchain_set_option a \<noteq> OptNoRequirePassphrase) \<longrightarrow>
          (\<forall>n k ks noecho rp.
             envchain_set_options argv False (- 1) = Inr (n # k # ks, noecho, rp) \<longrightarrow>
             rp = - 1 \<and> envchain_set argv w = envchain_set_keys n (k # ks) noecho (- 1) w))"
proof -
  from save_value_acls [OF assms, of name key val]
  obtain w' where w': "envchain_save_value name key val (- 1) w = Inr w'
     \<and> active_items w' =
         (case find_item (entry_matches name key) (active_items w) of
            None \<Rightarrow> active_items w @ [saved_entry name key val (new_item_acls w)]
          | Some j \<Rightarrow> (active_items w)[j := (active_items w ! j)
               \<lparr>item_data := val, item_description := Some ENVCHAIN_ITEM_DESCRIPTION\<rparr>])
     \<and> map item_decrypt_acls (active_items w') =
         map item_decrypt_acls (active_items w) @
           (case find_item (entry_matches name key) (active_items w) of
              None \<Rightarrow> [new_item_acls w] | Some j \<Rightarrow> [])" ..
  have indep: "\<exists>w''. envchain_save_value name key val (- 1) (w\<lparr>sec_fault := f\<rparr>) = Inr w''
             \<and> active_items w'' = active_items w'"
    if f: "f FindGenericPassword = noErr \<and> f AddGenericPassword = noErr
            \<and> f ItemModifyAttributesAndData = noErr" for f
  proof (cases "find_item (entry_matches name key) (active_items w)")
    case None
    then show ?thesis
      using w' f save_value_new [of "w\<lparr>sec_fault := f\<rparr>" name key val] by simp
  next
    case (Some j)
    then show ?thesis
      using w' f save_value_existing [of "w\<lparr>sec_fault := f\<rparr>" name key j val] by simp
  qed
  have opts: "rp = - 1 \<and> envchain_set argv w = envchain_set_keys n (k # ks) noecho (- 1) w"
    if a: "\<forall>a\<in>set argv. envchain_set_option a \<noteq> OptRequirePassphrase
            \<and> envchain_set_option a \<noteq> OptNoRequirePassphrase"
      and o: "envchain_set_options argv False (- 1) = Inr (n # k # ks, noecho, rp)"
    for n k ks noecho rp
  proof -
    from set_options_keep_policy [OF o a] have "rp = - 1" .
    with o show ?thesis by (simp add: envchain_set_def)
  qed
  show ?thesis
  proof (intro exI [of _ w'] conjI)
    show "envchain_save_value name key val (- 1) w = Inr w'"
      using w' by (rule conjunct1)
    show "map item_decrypt_acls (active_items w') =
         map item_decrypt_acls (active_items w) @
           (case find_item (entry_matches name key) (active_items w) of
              None \<Rightarrow> [new_item_acls w] | Some j \<Rightarrow> [])"
      using w' [THEN conjunct2] by (rule conjunct2)
    show "\<forall>f. f FindGenericPassword = noErr \<and> f AddGenericPassword = noErr
            \<and> f ItemModifyAttributesAndData = noErr \<longrightarrow>
          (\<exists>w''. envchain_save_value name key val (- 1) (w\<lparr>sec_fault := f\<rparr>) = Inr w''
             \<and> active_items w'' = active_items w')"
      using indep by blast
    show "(\<forall>a\<in>set argv. envchain_set_option a \<noteq> OptRequirePassphrase
            \<and> envchain_set_option a \<noteq> OptNoRequirePassphrase) \<longrightarrow>
          (\<forall>n k ks noecho rp.
             envchain_set_options argv False (- 1) = Inr (n # k # ks, noecho, rp) \<longrightarrow>
             rp = - 1 \<and> envchain_set argv w = envchain_set_keys n (k # ks) noecho (- 1) w)"
      using opts by blast
  qed
qed

theorem save_unspecified_keeps_acl_witness:
  "\<exists>w'. envchain_save_value ''db'' ''HOST'' ''new'' (- 1)
           (example_world [example_item ''envchain-db'' ''HOST'' ''old'']) = Inr w'
     \<and> map item_decrypt_acls (active_items w') = [[example_acl 0x0010]]
     \<and> map item_data (active_items w') = [''new'']
     \<and> envchain_set_options [''-n'', ''db'', ''HOST''] False (- 1) =
         Inr ([''db'', ''HOST''], True, - 1)"
proof -
  have o: "envchain_set_options [''-n'', ''db'', ''HOST''] False (- 1) =
         Inr ([''db'', ''HOST''], True, - 1)"
    by (simp add: starts_with_dash_def envchain_set_option_def)
  have f: "sec_fault (example_world its) c = noErr" for c its
    by simp
  have found: "find_item (entry_matches ''db'' ''HOST'')
      [example_item ''envchain-db'' ''HOST'' ''old''] = Some 0"
    by (simp add: entry_matches_def envchain_generate_service_name_def
        ENVCHAIN_SERVICE_PREFIX_def)
  have m: "entry_matches ''db'' ''HOST'' (example_item ''envchain-db'' ''HOST'' ''old'')"
    by (simp add: entry_matches_def envchain_generate_service_name_def
        ENVCHAIN_SERVICE_PREFIX_def)
  have again: "envchain_save_value ''db'' ''HOST'' ''new'' (- 1)
           (example_world [example_item ''envchain-db'' ''HOST'' ''old'']) =
      Inr (set_active_items [(example_item ''envchain-db'' ''HOST'' ''old'')
         \<lparr>item_data := ''new'', item_description := Some ENVCHAIN_ITEM_DESCRIPTION\<rparr>]
         (example_world [example_item ''envchain-db'' ''HOST'' ''old'']))"
    using save_value_existing [of "example_world [example_item ''envchain-db'' ''HOST'' ''old'']"
        "''db''" "''HOST''" 0 "''new''"] found
    by simp
  have a: "\<exists>w'. envchain_save_value ''db'' ''HOST'' ''new'' (- 1)
           (example_world [example_item ''envchain-db'' ''HOST'' ''old'']) = Inr w'
     \<and> map item_decrypt_acls (active_items w') = [[example_acl 0x0010]]
     \<and> map item_data (active_items w') = [''new'']"
    using save_unspecified_keeps_acl [of "example_world [example_item ''envchain-db'' ''HOST'' ''old'']"
        "''db''" "''HOST''" "''new''" "[]", OF f f f]
    apply (elim exE conjE)
    subgoal for w'
      apply (rule exI [of _ w'])
      apply (clarsimp simp: m again)
      done
    done
  from a show ?thesis by (simp only: o simp_thms)
qed

section \<open>Updating the access policy\<close>

lemma warn_fields [simp]:
  "keychains (warn m w) = keychains w"
  "active_items (warn m w) = active_items w"
  "sec_fault (warn m w) = sec_fault w"
  "stderr (warn m w) = stderr w @ [m]"
  "environ (warn m w) = environ w"
  "execvp_ok (warn m w) = execvp_ok w"
  by (simp_all add: warn_def active_items_def)

lemma apply_item_access_shape:
  "envchain_apply_item_access ref rp w = Inr (rc, w') \<Longrightarrow>
   rc = 0 \<and> ref < length (active_items w) \<and>
   (\<exists>acls. w' = set_active_items
      ((active_items w)[ref := (active_items w ! ref)\<lparr>item_decrypt_acls := acls\<rparr>]) w)"
  by (auto simp: envchain_apply_item_access_def SecKeychainItemCopyAccess_def
      SecKeychainItemSetAccess_def Let_def
      split: if_splits list.splits sum.splits prod.splits)

lemma find_item_same_identity:
  "map item_service xs = map item_service ys \<Longrightarrow> map item_account xs = map item_account ys \<Longrightarrow>
   find_item (entry_matches name key) xs = find_item (entry_matches name key) ys"
proof (induction xs arbitrary: ys)
  case Nil
  then show ?case by simp
next
  case (Cons x xs)
  then obtain y ys' where ys: "ys = y # ys'" by (cases ys) auto
  with Cons.prems have "item_service x = item_service y" "item_account x = item_account y"
    "map item_service xs = map item_service ys'" "map item_account xs = map item_account ys'"
    by simp_all
  with Cons.IH [of ys'] ys show ?case by (simp add: entry_matches_def)
qed

lemma apply_item_access_identity:
  assumes "envchain_apply_item_access ref rp w = Inr (rc, w')"
  shows "map item_service (active_items w') = map item_service (active_items w)
     \<and> map item_account (active_items w') = map item_account (active_items w)
     \<and> map item_data (active_items w') = map item_data (active_items w)
     \<and> sec_fault w' = sec_fault w"
proof -
  from apply_item_access_shape [OF assms]
  obtain acls where s: "ref < length (active_items w)"
    "w' = set_active_items
      ((active_items w)[ref := (active_items w ! ref)\<lparr>item_decrypt_acls := acls\<rparr>]) w"
    by blast
  show ?thesis
    using s by (simp add: map_update list_update_same_conv)
qed

lemma update_value_access_missing:
  "sec_fault w FindGenericPassword = noErr \<Longrightarrow> 0 \<le> rp \<Longrightarrow>
   find_item (entry_matches name key) (active_items w) = None \<Longrightarrow>
   envchain_update_value_access name key rp w = Inr (1, warn (KeyNotFound name key) w)"
  by (simp add: envchain_update_value_access_def find_value_absent)

lemma update_value_access_result:
  assumes "sec_fault w FindGenericPassword = noErr" and "0 \<le> rp"
    and "envchain_update_value_access name key rp w = Inr (rc, w')"
  shows "rc = (if find_item (entry_matches name key) (active_items w) = None then 1 else 0)
     \<and> map item_service (active_items w') = map item_service (active_items w)
     \<and> map item_account (active_items w') = map item_account (active_items w)
     \<and> map item_data (active_items w') = map item_data (active_items w)
     \<and> sec_fault w' = sec_fault w"
proof (cases "find_item (entry_matches name key) (active_items w)")
  case None
  with assms update_value_access_missing [of w rp name key] show ?thesis by auto
next
  case (Some i)
  from assms(3) find_value_present [OF assms(1) Some] assms(2)
  obtain rc0 where a: "envchain_apply_item_access i rp w = Inr (rc0, w')" and rc: "rc = 0"
    by (auto simp: envchain_update_value_access_def split: sum.splits)
  from apply_item_access_identity [OF a] rc Some show ?thesis by simp
qed

lemma set_access_keys_result:
  assumes "sec_fault w FindGenericPassword = noErr" and "0 \<le> rp"
    and "envchain_set_access_keys name keys rp result w = Inr (rc, w')"
  shows "rc = (if \<forall>k\<in>set keys. find_item (entry_matches name k) (active_items w) \<noteq> None
               then result else 1)
     \<and> map item_service (active_items w') = map item_service (active_items w)
     \<and> map item_account (active_items w') = map item_account (active_items w)
     \<and> map item_data (active_items w') = map item_data (active_items w)
     \<and> sec_fault w' = sec_fault w"
  using assms
proof (induction keys arbitrary: result w)
  case Nil
  then show ?case by simp
next
  case (Cons key keys)
  from Cons.prems(3) obtain rc1 w1 where
    u: "envchain_update_value_access name key rp w = Inr (rc1, w1)"
    and l: "envchain_set_access_keys name keys rp (if rc1 \<noteq> 0 then 1 else result) w1 =
        Inr (rc, w')"
    by (auto split: sum.splits)
  from update_value_access_result [OF Cons.prems(1,2) u]
  have r1: "rc1 = (if find_item (entry_matches name key) (active_items w) = None then 1 else 0)"
    and id: "map item_service (active_items w1) = map item_service (active_items w)"
      "map item_account (active_items w1) = map item_account (active_items w)"
      "map item_data (active_items w1) = map item_data (active_items w)"
      "sec_fault w1 = sec_fault w"
    by simp_all
  have f1: "sec_fault w1 FindGenericPassword = noErr"
    using id(4) Cons.prems(1) by simp
  have same: "find_item (entry_matches name k) (active_items w1) =
      find_item (entry_matches name k) (active_items w)" for k
    using find_item_same_identity [OF id(1,2)] .
  from Cons.IH [OF f1 Cons.prems(2) l]
  have ih: "rc = (if \<forall>k\<in>set keys. find_item (entry_matches name k) (active_items w1) \<noteq> None
               then (if rc1 \<noteq> 0 then 1 else result) else 1)"
    and id2: "map item_service (active_items w') = map item_service (active_items w1)"
      "map item_account (active_items w') = map item_account (active_items w1)"
      "map item_data (active_items w') = map item_data (active_items w1)"
      "sec_fault w' = sec_fault w1"
    by simp_all
  show ?case
    using ih r1 id id2 by (auto simp: same)
qed

lemma set_access_with_policy:
  "starts_with_dash flag \<Longrightarrow> envchain_set_access_option flag = OptRequirePassphrase \<Longrightarrow>
   \<not> starts_with_dash name \<Longrightarrow>
   envchain_set_access (flag # name # key # keys) w =
     envchain_set_access_keys name (key # keys) 1 0 w"
  by (cases keys) (simp_all add: envchain_set_access_def)

text \<open>C7. With a policy of 0 or 1 and a backend whose find call works, updating the access
  of a namespace and key that has no entry prints the not-found warning and returns 1,
  and the only change to the process is the warning: no keychain is touched. The key loop
  of \<open>envchain_set_access\<close> goes on with the remaining keys after such a key, with the
  overall result set to 1. When the loop returns, its result is 0 if every key had an
  entry and 1 otherwise, and no entry's value, service or account has changed.\<close>

theorem update_access_missing_key:
  assumes "sec_fault w FindGenericPassword = noErr" and "0 \<le> require_passphrase"
  shows "(find_item (entry_matches name key) (active_items w) = None \<longrightarrow>
        envchain_update_value_access name key require_passphrase w =
          Inr (1, warn (KeyNotFound name key) w)
        \<and> keychains (warn (KeyNotFound name key) w) = keychains w
        \<and> envchain_set_access_keys name (key # keys) require_passphrase result w =
            envchain_set_access_keys name keys require_passphrase 1
              (warn (KeyNotFound name key) w))
     \<and> (\<forall>rc w'. envchain_set_access_keys name keys require_passphrase 0 w = Inr (rc, w') \<longrightarrow>
          rc = (if \<forall>k\<in>set keys. find_item (entry_matches name k) (active_items w) \<noteq> None
                then 0 else 1)
          \<and> map item_data (active_items w') = map item_data (active_items w)
          \<and> map item_service (active_items w') = map item_service (active_items w)
          \<and> map item_account (active_items w') = map item_account (active_items w))
     \<and> (starts_with_dash flag \<and> envchain_set_access_option flag = OptRequirePassphrase
          \<and> \<not> starts_with_dash name \<longrightarrow>
          envchain_set_access (flag # name # key # keys) w =
            envchain_set_access_keys name (key # keys) 1 0 w)"
proof (intro conjI impI allI)
  assume none: "find_item (entry_matches name key) (active_items w) = None"
  show u: "envchain_update_value_access name key require_passphrase w =
          Inr (1, warn (KeyNotFound name key) w)"
    using update_value_access_missing [OF assms none] .
  show "keychains (warn (KeyNotFound name key) w) = keychains w"
    by simp
  show "envchain_set_access_keys name (key # keys) require_passphrase result w =
            envchain_set_access_keys name keys require_passphrase 1
              (warn (KeyNotFound name key) w)"
    by (simp add: u)
next
  fix rc w'
  assume l: "envchain_set_access_keys name keys require_passphrase 0 w = Inr (rc, w')"
  from set_access_keys_result [OF assms l]
  show "rc = (if \<forall>k\<in>set keys. find_item (entry_matches name k) (active_items w) \<noteq> None
                then 0 else 1)"
    and "map item_data (active_items w') = map item_data (active_items w)"
    and "map item_service (active_items w') = map item_service (active_items w)"
    and "map item_account (active_items w') = map item_account (active_items w)"
    by simp_all
next
  assume "starts_with_dash flag \<and> envchain_set_access_option flag = OptRequirePassphrase
          \<and> \<not> starts_with_dash name"
  then show "envchain_set_access (flag # name # key # keys) w =
            envchain_set_access_keys name (key # keys) 1 0 w"
    by (simp add: set_access_with_policy)
qed

theorem update_access_missing_key_witness:
  "envchain_set_access [''-p'', ''db'', ''PORT'', ''HOST'']
     (example_world [example_item ''envchain-db'' ''HOST'' ''h'']) =
   Inr (1, with_decrypt_acl 0
             ((example_acl 0x0010)\<lparr>acl_apps := Some [], acl_prompt := 0x0011\<rparr>)
             (warn (KeyNotFound ''db'' ''PORT'')
                (example_world [example_item ''envchain-db'' ''HOST'' ''h''])))"
proof -
  let ?w = "example_world [example_item ''envchain-db'' ''HOST'' ''h'']"
  have flag: "starts_with_dash ''-p''" "envchain_set_access_option ''-p'' = OptRequirePassphrase"
    "\<not> starts_with_dash ''db''"
    by (simp_all add: starts_with_dash_def envchain_set_access_option_def)
  have port: "find_item (entry_matches ''db'' ''PORT'') (active_items ?w) = None"
    by (simp add: entry_matches_def)
  have host: "find_item (entry_matches ''db'' ''HOST'')
      (active_items (warn (KeyNotFound ''db'' ''PORT'') ?w)) = Some 0"
    by (simp add: entry_matches_def envchain_generate_service_name_def
        ENVCHAIN_SERVICE_PREFIX_def)
  have app: "envchain_apply_item_access 0 1 (warn (KeyNotFound ''db'' ''PORT'') ?w) =
      Inr (0, with_decrypt_acl 0
             ((example_acl 0x0010)\<lparr>acl_apps := Some [], acl_prompt := 0x0011\<rparr>)
             (warn (KeyNotFound ''db'' ''PORT'') ?w))"
    using apply_item_access_require [of "warn (KeyNotFound ''db'' ''PORT'') ?w" 0
        "example_acl 0x0010" "[]"]
    by (simp add: with_decrypt_acl_def require_passphrase_prompt_def
        kSecKeychainPromptRequirePassphase_def example_acl_def)
  have upd: "envchain_update_value_access ''db'' ''HOST'' 1
        (warn (KeyNotFound ''db'' ''PORT'') ?w) =
      Inr (0, with_decrypt_acl 0
             ((example_acl 0x0010)\<lparr>acl_apps := Some [], acl_prompt := 0x0011\<rparr>)
             (warn (KeyNotFound ''db'' ''PORT'') ?w))"
    using find_value_present [OF _ host]
    by (simp add: envchain_update_value_access_def app)
  have rest: "envchain_set_access_keys ''db'' [''HOST''] 1 1
        (warn (KeyNotFound ''db'' ''PORT'') ?w) =
      Inr (1, with_decrypt_acl 0
             ((example_acl 0x0010)\<lparr>acl_apps := Some [], acl_prompt := 0x0011\<rparr>)
             (warn (KeyNotFound ''db'' ''PORT'') ?w))"
    by (simp add: upd)
  from update_access_missing_key [of ?w 1 "''db''" "''PORT''" "[''HOST'']" 0 "''-p''"]
  show ?thesis
    using flag port by (simp only: rest sec_fault_example_world simp_thms)
qed

section \<open>Exec mode\<close>

lemma setenv_fields [simp]:
  "keychains (setenv k v ov w) = keychains w"
  "envchain_keychain (setenv k v ov w) = envchain_keychain w"
  "active_items (setenv k v ov w) = active_items w"
  "sec_fault (setenv k v ov w) = sec_fault w"
  "execvp_ok (setenv k v ov w) = execvp_ok w"
  by (simp_all add: setenv_def active_items_def)

lemma environ_setenv:
  "environ (setenv k v 1 w) key =
     (if k = key \<and> k \<noteq> [] \<and> CHR ''='' \<notin> set k then Some v else environ w key)"
  by (simp add: setenv_def)

lemma install_simps [simp]:
  "install [] w = w"
  "install (p # ps) w = install ps (setenv (fst p) (snd p) 1 w)"
  by (simp_all add: install_def)

lemma install_append: "install (ps @ qs) w = install qs (install ps w)"
  by (simp add: install_def)

lemma install_fields [simp]:
  "keychains (install ps w) = keychains w"
  "envchain_keychain (install ps w) = envchain_keychain w"
  "active_items (install ps w) = active_items w"
  "sec_fault (install ps w) = sec_fault w"
  "execvp_ok (install ps w) = execvp_ok w"
  by (induction ps arbitrary: w) simp_all

lemma environ_install:
  "key \<noteq> [] \<Longrightarrow> CHR ''='' \<notin> set key \<Longrightarrow>
   environ (install ps w) key =
     (case last_value key ps of None \<Rightarrow> environ w key | Some v \<Rightarrow> Some v)"
proof (induction ps arbitrary: w)
  case Nil
  show ?case by (simp add: last_value_def)
next
  case (Cons p ps)
  have "last_value key (p # ps) =
      (case last_value key ps of None \<Rightarrow> (if fst p = key then Some (snd p) else None)
       | Some v \<Rightarrow> Some v)"
    by (cases p) (simp add: last_value_def map_add_def split: option.split)
  then show ?case
    using Cons by (auto simp: environ_setenv split: option.split)
qed

lemma fold_applier_exec:
  "\<forall>r\<in>set refs. r < length (active_items w) \<and> sec_fault w (ItemCopyContent r) = noErr \<Longrightarrow>
   fold (envchain_search_values_applier (SearchCallback envchain_exec_value_callback)) refs
     ((), w) =
   ((), install (map (\<lambda>r. (c_str (item_account (active_items w ! r)),
                            c_str (item_data (active_items w ! r)))) refs) w)"
proof (induction refs arbitrary: w)
  case Nil
  show ?case by simp
next
  case (Cons r refs)
  let ?w1 = "setenv (c_str (item_account (active_items w ! r)))
      (c_str (item_data (active_items w ! r))) 1 w"
  have step: "envchain_search_values_applier (SearchCallback envchain_exec_value_callback) r
      ((), w) = ((), ?w1)"
    using Cons.prems by (simp add: applier_search envchain_exec_value_callback_def)
  have "\<forall>r\<in>set refs. r < length (active_items ?w1)
      \<and> sec_fault ?w1 (ItemCopyContent r) = noErr"
    using Cons.prems by simp
  from Cons.IH [OF this] step show ?case by simp
qed

lemma search_values_exec:
  assumes "sec_fault w ItemCopyMatching = noErr"
    and "\<forall>i<length (active_items w). sec_fault w (ItemCopyContent i) = noErr"
  shows "envchain_search_values name envchain_exec_value_callback () w =
     (if namespace_pairs name w = [] then Inr (1, (), warn (NamespaceNotDefined name) w)
      else Inr (0, (), install (namespace_pairs name w) w))"
proof -
  define refs where "refs = filter
     (\<lambda>i. query_matches (ByService (envchain_generate_service_name name)) (active_items w ! i))
     [0 ..< length (active_items w)]"
  have pairs: "map (\<lambda>r. (c_str (item_account (active_items w ! r)),
      c_str (item_data (active_items w ! r)))) refs = namespace_pairs name w"
  proof -
    have "map (\<lambda>r. (c_str (item_account (active_items w ! r)),
        c_str (item_data (active_items w ! r)))) refs =
        map (\<lambda>it. (c_str (item_account it), c_str (item_data it)))
          (map ((!) (active_items w)) refs)"
      by (simp add: comp_def)
    also have "map ((!) (active_items w)) refs =
        filter (query_matches (ByService (envchain_generate_service_name name)))
          (active_items w)"
      unfolding refs_def by (rule matching_refs_items)
    finally show ?thesis by (simp add: namespace_pairs_def)
  qed
  have ok: "\<forall>r\<in>set refs. r < length (active_items w) \<and> sec_fault w (ItemCopyContent r) = noErr"
    using assms(2) by (auto simp: refs_def)
  have empty: "namespace_pairs name w = [] \<longleftrightarrow> refs = []"
    using pairs by (metis map_is_Nil_conv)
  show ?thesis
  proof (cases "refs = []")
    case True
    with assms(1) empty show ?thesis
      by (simp add: envchain_search_values_def SecItemCopyMatching_def refs_def [symmetric]
          del: query_matches.simps)
  next
    case False
    with assms(1) empty show ?thesis
      by (simp add: envchain_search_values_def SecItemCopyMatching_def refs_def [symmetric]
          fold_applier_exec [OF ok] pairs noErr_def errSecItemNotFound_def
          del: query_matches.simps)
  qed
qed

lemma namespace_pairs_same_items:
  "active_items w' = active_items w \<Longrightarrow> namespace_pairs n w' = namespace_pairs n w"
  by (simp add: namespace_pairs_def)

lemma exec_pairs_same_items:
  "active_items w' = active_items w \<Longrightarrow> exec_pairs names w' = exec_pairs names w"
  by (simp add: exec_pairs_def namespace_pairs_def)

lemma last_value_append:
  "last_value key (ps @ qs) =
     (case last_value key qs of None \<Rightarrow> last_value key ps | Some v \<Rightarrow> Some v)"
  by (simp add: last_value_def map_add_def split: option.split)

lemma exec_names_result:
  assumes "sec_fault w ItemCopyMatching = noErr"
    and "\<forall>i<length (active_items w). sec_fault w (ItemCopyContent i) = noErr"
  shows "\<exists>w'. envchain_exec_names names w = Inr w'
     \<and> active_items w' = active_items w \<and> sec_fault w' = sec_fault w
     \<and> execvp_ok w' = execvp_ok w
     \<and> (\<forall>key. key \<noteq> [] \<and> CHR ''='' \<notin> set key \<longrightarrow>
          environ w' key =
            (case last_value key (exec_pairs names w) of
               None \<Rightarrow> environ w key | Some v \<Rightarrow> Some v))"
  using assms
proof (induction names arbitrary: w)
  case Nil
  show ?case by (simp add: exec_pairs_def last_value_def)
next
  case (Cons name names)
  define w1 where "w1 = (if namespace_pairs name w = [] then warn (NamespaceNotDefined name) w
      else install (namespace_pairs name w) w)"
  have s: "envchain_search_values name envchain_exec_value_callback () w =
      Inr (if namespace_pairs name w = [] then 1 else 0, (), w1)"
    using search_values_exec [OF Cons.prems, of name] by (simp add: w1_def)
  have same: "active_items w1 = active_items w" "sec_fault w1 = sec_fault w"
    "execvp_ok w1 = execvp_ok w"
    by (simp_all add: w1_def)
  have env1: "environ w1 key =
      (case last_value key (namespace_pairs name w) of
         None \<Rightarrow> environ w key | Some v \<Rightarrow> Some v)"
    if "key \<noteq> [] \<and> CHR ''='' \<notin> set key" for key
    using that by (simp add: w1_def environ_install last_value_def)
  have p1: "sec_fault w1 ItemCopyMatching = noErr"
    "\<forall>i<length (active_items w1). sec_fault w1 (ItemCopyContent i) = noErr"
    using Cons.prems same by simp_all
  from Cons.IH [OF p1] obtain w' where w': "envchain_exec_names names w1 = Inr w'"
    "active_items w' = active_items w1" "sec_fault w' = sec_fault w1"
    "execvp_ok w' = execvp_ok w1"
    "\<forall>key. key \<noteq> [] \<and> CHR ''='' \<notin> set key \<longrightarrow>
          environ w' key =
            (case last_value key (exec_pairs names w1) of
               None \<Rightarrow> environ w1 key | Some v \<Rightarrow> Some v)"
    by blast
  have pairs: "exec_pairs (name # names) w = namespace_pairs name w @ exec_pairs names w1"
    using exec_pairs_same_items [OF same(1), of names] by (simp add: exec_pairs_def)
  have env: "environ w' key =
            (case last_value key (exec_pairs (name # names) w) of
               None \<Rightarrow> environ w key | Some v \<Rightarrow> Some v)"
    if k: "key \<noteq> [] \<and> CHR ''='' \<notin> set key" for key
    using w'(5) k env1 [OF k]
    by (simp add: pairs last_value_append split: option.split)
  have "envchain_exec_names (name # names) w = Inr w'"
    using s w'(1) by simp
  with w'(2-4) same env show ?case by simp
qed

lemma last_value_in_last_namespace:
  assumes "(key, val) \<in> set ps" and "\<forall>v. (key, v) \<in> set ps \<longrightarrow> v = val"
    and "key \<notin> fst ` set qs"
  shows "last_value key (before @ ps @ qs) = Some val"
proof -
  have q: "last_value key qs = None"
    using assms(3) by (simp add: last_value_def map_of_eq_None_iff)
  have "key \<in> fst ` set (rev ps)"
    using assms(1) by force
  then obtain v where v: "last_value key ps = Some v"
    unfolding last_value_def by (metis map_of_eq_None_iff not_Some_eq)
  then have "(key, v) \<in> set ps"
    unfolding last_value_def by (metis map_of_SomeD set_rev)
  with assms(2) v have "last_value key ps = Some val" by simp
  with q show ?thesis by (simp add: last_value_append)
qed

lemma exec_pairs_append:
  "exec_pairs (xs @ ys) w = exec_pairs xs w @ exec_pairs ys w"
  by (simp add: exec_pairs_def)



section \<open>Usage errors\<close>

lemma help_outcome [simp]:
  "exit_status (Inl (envchain_abort_with_help w)) = Some 2"
  "diagnostics (Inl (envchain_abort_with_help w)) = stderr w @ [HelpText]"
  by (simp_all add: exit_status_def diagnostics_def envchain_abort_with_help_def)

lemma return_outcome [simp]:
  "exit_status (Inr (rc, w)) = Some rc"
  "diagnostics (Inr (rc, w)) = stderr w"
  by (simp_all add: exit_status_def diagnostics_def)

lemma short_argv_cases: "length argv < 2 \<Longrightarrow> argv = [] \<or> (\<exists>a. argv = [a])"
  by (cases argv) (auto simp: length_Suc_conv)

lemma set_too_few: "length argv < 2 \<Longrightarrow> envchain_set argv w = Inl (envchain_abort_with_help w)"
  using short_argv_cases [of argv] by (auto simp: envchain_set_def)

lemma set_access_too_few:
  "length argv < 2 \<Longrightarrow> envchain_set_access argv w = Inl (envchain_abort_with_help w)"
  using short_argv_cases [of argv] by (auto simp: envchain_set_access_def)

lemma unset_too_few:
  "length argv < 2 \<Longrightarrow> envchain_unset argv w = Inl (envchain_abort_with_help w)"
  using short_argv_cases [of argv] by (auto simp: envchain_unset_def)

lemma exec_too_few:
  "length argv < 2 \<Longrightarrow> envchain_exec argv w = Inl (envchain_abort_with_help w)"
  using short_argv_cases [of argv] by (auto simp: envchain_exec_def)

lemma main_too_few:
  "length argv < 2 \<Longrightarrow>
   main argv w = Inl (envchain_abort_with_help
     (w\<lparr>envchain_name := (case argv of [] \<Rightarrow> [] | a # _ \<Rightarrow> a)\<rparr>))"
  by (simp add: main_def)

lemma dash_literals:
  "starts_with_dash ''-n''" "starts_with_dash ''--noecho''"
  "starts_with_dash ''-p''" "starts_with_dash ''--require-passphrase''"
  "starts_with_dash ''-P''" "starts_with_dash ''--no-require-passphrase''"
  by (simp_all add: starts_with_dash_def)

lemma set_option_dash: "envchain_set_option a \<noteq> OptUnknown \<Longrightarrow> starts_with_dash a"
proof (rule ccontr)
  assume k: "envchain_set_option a \<noteq> OptUnknown" and n: "\<not> starts_with_dash a"
  from n dash_literals have "a \<noteq> ''-n''" "a \<noteq> ''--noecho''" "a \<noteq> ''-p''"
    "a \<noteq> ''--require-passphrase''" "a \<noteq> ''-P''" "a \<noteq> ''--no-require-passphrase''"
    by blast+
  then have "envchain_set_option a = OptUnknown"
    by (simp only: envchain_set_option_def simp_thms if_False)
  with k show False by simp
qed

lemma set_access_option_dash: "envchain_set_access_option a \<noteq> OptUnknown \<Longrightarrow> starts_with_dash a"
proof (rule ccontr)
  assume k: "envchain_set_access_option a \<noteq> OptUnknown" and n: "\<not> starts_with_dash a"
  from n dash_literals have "a \<noteq> ''-p''"
    "a \<noteq> ''--require-passphrase''" "a \<noteq> ''-P''" "a \<noteq> ''--no-require-passphrase''"
    by blast+
  then have "envchain_set_access_option a = OptUnknown"
    by (simp only: envchain_set_access_option_def simp_thms if_False)
  with k show False by simp
qed

lemma set_access_option_policy:
  "envchain_set_access_option a \<noteq> OptNoecho"
  by (simp add: envchain_set_access_option_def)

lemma two_more: "2 \<le> length xs \<Longrightarrow> \<exists>b c rest. xs = b # c # rest"
  by (cases xs; cases "tl xs") auto

lemma set_options_few:
  "length xs \<le> 2 \<Longrightarrow> envchain_set_options xs ne rp = Inr (xs, ne, rp)"
  by (cases xs; cases "tl xs"; cases "tl (tl xs)") auto

lemma set_options_break:
  "\<not> starts_with_dash a \<Longrightarrow> envchain_set_options (a # xs) ne rp = Inr (a # xs, ne, rp)"
  by (cases xs; cases "tl xs") auto

lemma set_options_step:
  "2 \<le> length xs \<Longrightarrow> starts_with_dash a \<Longrightarrow>
   envchain_set_options (a # xs) ne rp =
     (case envchain_set_option a of
        OptNoecho \<Rightarrow> envchain_set_options xs True rp
      | OptRequirePassphrase \<Rightarrow> envchain_set_options xs ne 1
      | OptNoRequirePassphrase \<Rightarrow> envchain_set_options xs ne 0
      | OptUnknown \<Rightarrow> Inl a)"
  using two_more [of xs] by auto

lemma set_access_options_few:
  "length xs \<le> 2 \<Longrightarrow> envchain_set_access_options xs rp = Inr (xs, rp)"
  by (cases xs; cases "tl xs"; cases "tl (tl xs)") auto

lemma set_access_options_break:
  "\<not> starts_with_dash a \<Longrightarrow> envchain_set_access_options (a # xs) rp = Inr (a # xs, rp)"
  by (cases xs; cases "tl xs") auto

lemma set_access_options_step:
  "2 \<le> length xs \<Longrightarrow> starts_with_dash a \<Longrightarrow>
   envchain_set_access_options (a # xs) rp =
     (case envchain_set_access_option a of
        OptRequirePassphrase \<Rightarrow> envchain_set_access_options xs 1
      | OptNoRequirePassphrase \<Rightarrow> envchain_set_access_options xs 0
      | OptNoecho \<Rightarrow> Inl a
      | OptUnknown \<Rightarrow> Inl a)"
  using two_more [of xs] by (auto split: cli_option.splits)

lemma set_options_unknown:
  "list_all (\<lambda>a. envchain_set_option a \<noteq> OptUnknown) opts \<Longrightarrow> starts_with_dash x \<Longrightarrow>
   envchain_set_option x = OptUnknown \<Longrightarrow>
   envchain_set_options (opts @ x # b # c # rest) ne rp = Inl x"
proof (induction opts arbitrary: ne rp)
  case Nil
  then show ?case by simp
next
  case (Cons a opts)
  have l: "2 \<le> length (opts @ x # b # c # rest)" by simp
  from Cons.prems have d: "starts_with_dash a" by (simp add: set_option_dash)
  from Cons.prems have k: "envchain_set_option a \<noteq> OptUnknown" by simp
  have ih: "envchain_set_options (opts @ x # b # c # rest) ne' rp' = Inl x" for ne' rp'
    using Cons.IH Cons.prems by simp
  show ?case
    using k by (cases "envchain_set_option a")
      (simp_all add: set_options_step [OF l d] ih)
qed

lemma set_options_run:
  "list_all (\<lambda>a. envchain_set_option a \<noteq> OptUnknown) opts \<Longrightarrow>
   \<not> starts_with_dash name \<or> keys = [] \<Longrightarrow>
   envchain_set_options (opts @ name # key # keys) ne rp =
     Inr (name # key # keys, ne \<or> noecho_after opts, policy_after envchain_set_option opts rp)"
proof (induction opts arbitrary: ne rp)
  case Nil
  then show ?case
    by (auto simp: noecho_after_def policy_after_def set_options_break set_options_few)
next
  case (Cons a opts)
  have l: "2 \<le> length (opts @ name # key # keys)" by simp
  from Cons.prems have d: "starts_with_dash a" by (simp add: set_option_dash)
  from Cons.prems have k: "envchain_set_option a \<noteq> OptUnknown" by simp
  have ih: "envchain_set_options (opts @ name # key # keys) ne' rp' =
      Inr (name # key # keys, ne' \<or> noecho_after opts,
        policy_after envchain_set_option opts rp')" for ne' rp'
    using Cons.IH Cons.prems by simp
  show ?case
    using k by (cases "envchain_set_option a")
      (simp_all add: set_options_step [OF l d] ih noecho_after_def policy_after_def)
qed

lemma set_access_options_unknown:
  "list_all (\<lambda>a. envchain_set_access_option a \<noteq> OptUnknown) opts \<Longrightarrow> starts_with_dash x \<Longrightarrow>
   envchain_set_access_option x = OptUnknown \<Longrightarrow>
   envchain_set_access_options (opts @ x # b # c # rest) rp = Inl x"
proof (induction opts arbitrary: rp)
  case Nil
  then show ?case by simp
next
  case (Cons a opts)
  have l: "2 \<le> length (opts @ x # b # c # rest)" by simp
  from Cons.prems have d: "starts_with_dash a" by (simp add: set_access_option_dash)
  from Cons.prems have k: "envchain_set_access_option a \<noteq> OptUnknown" by simp
  have ih: "envchain_set_access_options (opts @ x # b # c # rest) rp' = Inl x" for rp'
    using Cons.IH Cons.prems by simp
  show ?case
    using k set_access_option_policy [of a] by (cases "envchain_set_access_option a")
      (simp_all add: set_access_options_step [OF l d] ih)
qed

lemma set_access_options_run:
  "list_all (\<lambda>a. envchain_set_access_option a \<noteq> OptUnknown) opts \<Longrightarrow>
   \<not> starts_with_dash name \<or> keys = [] \<Longrightarrow>
   envchain_set_access_options (opts @ name # key # keys) rp =
     Inr (name # key # keys, policy_after envchain_set_access_option opts rp)"
proof (induction opts arbitrary: rp)
  case Nil
  then show ?case
    by (auto simp: policy_after_def set_access_options_break set_access_options_few)
next
  case (Cons a opts)
  have l: "2 \<le> length (opts @ name # key # keys)" by simp
  from Cons.prems have d: "starts_with_dash a" by (simp add: set_access_option_dash)
  from Cons.prems have k: "envchain_set_access_option a \<noteq> OptUnknown" by simp
  have ih: "envchain_set_access_options (opts @ name # key # keys) rp' =
      Inr (name # key # keys, policy_after envchain_set_access_option opts rp')" for rp'
    using Cons.IH Cons.prems by simp
  show ?case
    using k set_access_option_policy [of a] by (cases "envchain_set_access_option a")
      (simp_all add: set_access_options_step [OF l d] ih policy_after_def)
qed

lemma policy_after_set_access:
  "opts \<noteq> [] \<Longrightarrow> list_all (\<lambda>a. envchain_set_access_option a \<noteq> OptUnknown) opts \<Longrightarrow>
   policy_after envchain_set_access_option opts rp =
     (if envchain_set_access_option (last opts) = OptRequirePassphrase then 1 else 0)"
proof (induction opts arbitrary: rp)
  case Nil
  then show ?case by simp
next
  case (Cons a opts)
  show ?case
  proof (cases opts)
    case Nil
    with Cons.prems set_access_option_policy [of a] show ?thesis
      by (cases "envchain_set_access_option a") (simp_all add: policy_after_def)
  next
    case (Cons b bs)
    with Cons.IH [of "case envchain_set_access_option a of
                     OptRequirePassphrase \<Rightarrow> 1
                   | OptNoRequirePassphrase \<Rightarrow> 0
                   | OptNoecho \<Rightarrow> rp
                   | OptUnknown \<Rightarrow> rp"] Cons.prems
    show ?thesis by (simp add: policy_after_def)
  qed
qed

lemma args_shape:
  fixes option :: "string \<Rightarrow> cli_option"
  shows "length argv < 2
    \<or> (\<exists>opts x b c rest. argv = opts @ x # b # c # rest
          \<and> list_all (\<lambda>a. starts_with_dash a \<and> option a \<noteq> OptUnknown) opts
          \<and> starts_with_dash x \<and> option x = OptUnknown)
    \<or> (\<exists>opts name key keys. argv = opts @ name # key # keys
          \<and> list_all (\<lambda>a. starts_with_dash a \<and> option a \<noteq> OptUnknown) opts
          \<and> (\<not> starts_with_dash name \<or> keys = []))"
proof (induction argv)
  case Nil
  then show ?case by simp
next
  case (Cons a argv)
  consider "length argv < 1" | "length argv = 1" | "2 \<le> length argv" by linarith
  then show ?case
  proof cases
    case 1
    then show ?thesis by simp
  next
    case 2
    then obtain k where "argv = [k]" by (cases argv) auto
    then have "a # argv = [] @ a # k # [] \<and> list_all (\<lambda>a. starts_with_dash a \<and> option a \<noteq> OptUnknown) []"
      by simp
    then show ?thesis by blast
  next
    case 3
    then obtain b c rest where bc: "argv = b # c # rest" using two_more by blast
    show ?thesis
    proof (cases "starts_with_dash a")
      case False
      then have "a # argv = [] @ a # b # c # rest
          \<and> list_all (\<lambda>a. starts_with_dash a \<and> option a \<noteq> OptUnknown) []
          \<and> (\<not> starts_with_dash a \<or> c # rest = [])"
        using bc by simp
      then show ?thesis by blast
    next
      case True
      show ?thesis
      proof (cases "option a = OptUnknown")
        case u: True
        with True have "a # argv = [] @ a # b # c # rest
          \<and> list_all (\<lambda>a. starts_with_dash a \<and> option a \<noteq> OptUnknown) []
          \<and> starts_with_dash a \<and> option a = OptUnknown"
          using bc by simp
        then show ?thesis by blast
      next
        case k: False
        from 3 Cons.IH
        consider (unk) opts x b c rest where "argv = opts @ x # b # c # rest"
            "list_all (\<lambda>a. starts_with_dash a \<and> option a \<noteq> OptUnknown) opts"
            "starts_with_dash x" "option x = OptUnknown"
          | (run) opts name key keys where "argv = opts @ name # key # keys"
            "list_all (\<lambda>a. starts_with_dash a \<and> option a \<noteq> OptUnknown) opts"
            "\<not> starts_with_dash name \<or> keys = []"
          by fastforce
        then show ?thesis
        proof cases
          case unk
          with True k have "a # argv = (a # opts) @ x # b # c # rest
            \<and> list_all (\<lambda>a. starts_with_dash a \<and> option a \<noteq> OptUnknown) (a # opts)
            \<and> starts_with_dash x \<and> option x = OptUnknown"
            by simp
          then show ?thesis by blast
        next
          case run
          with True k have "a # argv = (a # opts) @ name # key # keys
            \<and> list_all (\<lambda>a. starts_with_dash a \<and> option a \<noteq> OptUnknown) (a # opts)
            \<and> (\<not> starts_with_dash name \<or> keys = [])"
            by simp
          then show ?thesis by blast
        qed
      qed
    qed
  qed
qed

lemma set_access_without_policy:
  "\<not> starts_with_dash name \<or> keys = [] \<Longrightarrow>
   envchain_set_access (name # key # keys) w = Inr (2, warn SetAccessRequiresPolicy w)"
  by (cases keys) (auto simp: envchain_set_access_def)

lemma list_args_second_target:
  "target c \<noteq> None \<Longrightarrow> \<not> list_all is_show_value argv \<Longrightarrow> envchain_list_args argv c = None"
  by (induction argv arbitrary: c) auto

lemma list_args_two_targets:
  "target c = None \<Longrightarrow> 2 \<le> length (filter (\<lambda>a. \<not> is_show_value a) argv) \<Longrightarrow>
   envchain_list_args argv c = None"
proof (induction argv arbitrary: c)
  case Nil
  then show ?case by simp
next
  case (Cons a argv)
  show ?case
  proof (cases "is_show_value a")
    case True
    with Cons show ?thesis by simp
  next
    case False
    with Cons.prems have "filter (\<lambda>a. \<not> is_show_value a) argv \<noteq> []" by auto
    then have "\<not> list_all is_show_value argv"
      by (simp add: list_all_iff filter_empty_conv)
    with False Cons.prems(1)
    show ?thesis by (simp add: list_args_second_target)
  qed
qed

lemma list_args_flags_only:
  "list_all is_show_value argv \<Longrightarrow> argv \<noteq> [] \<Longrightarrow> target c = None \<Longrightarrow>
   \<exists>c'. envchain_list_args argv c = Some c' \<and> target c' = None \<and> show_value c'"
proof (induction argv arbitrary: c)
  case Nil
  then show ?case by simp
next
  case (Cons a argv)
  show ?case
  proof (cases argv)
    case Nil
    with Cons.prems show ?thesis by simp
  next
    case (Cons b rest)
    with Cons.IH [of "c\<lparr>show_value := True\<rparr>"] Cons.prems show ?thesis by simp
  qed
qed

lemma list_two_targets:
  "2 \<le> length (filter (\<lambda>a. \<not> is_show_value a) argv) \<Longrightarrow>
   envchain_list argv w = Inl (envchain_abort_with_help w)"
  by (simp add: envchain_list_def list_args_two_targets)

lemma list_show_value_without_target:
  "list_all is_show_value argv \<Longrightarrow> argv \<noteq> [] \<Longrightarrow>
   envchain_list argv w = Inl (envchain_abort_with_help w)"
  using list_args_flags_only [of argv "\<lparr>target = None, show_value = False\<rparr>"]
  by (auto simp: envchain_list_def)


lemma set_unknown_option:
  "list_all (\<lambda>a. envchain_set_option a \<noteq> OptUnknown) opts \<Longrightarrow> starts_with_dash x \<Longrightarrow>
   envchain_set_option x = OptUnknown \<Longrightarrow>
   envchain_set (opts @ x # b # c # rest) w = Inr (1, warn (UnknownOptionColon x) w)"
  by (simp add: envchain_set_def set_options_unknown)

lemma set_access_unknown_option:
  "list_all (\<lambda>a. envchain_set_access_option a \<noteq> OptUnknown) opts \<Longrightarrow> starts_with_dash x \<Longrightarrow>
   envchain_set_access_option x = OptUnknown \<Longrightarrow>
   envchain_set_access (opts @ x # b # c # rest) w = Inr (1, warn (UnknownOptionColon x) w)"
  by (simp add: envchain_set_access_def set_access_options_unknown)

lemma set_runs:
  "list_all (\<lambda>a. envchain_set_option a \<noteq> OptUnknown) opts \<Longrightarrow>
   \<not> starts_with_dash name \<or> keys = [] \<Longrightarrow>
   envchain_set (opts @ name # key # keys) w =
     envchain_set_keys name (key # keys) (noecho_after opts)
       (policy_after envchain_set_option opts (- 1)) w"
  by (simp add: envchain_set_def set_options_run)

lemma set_access_runs:
  assumes "opts \<noteq> []" and "list_all (\<lambda>a. envchain_set_access_option a \<noteq> OptUnknown) opts"
    and "\<not> starts_with_dash name \<or> keys = []"
  shows "envchain_set_access (opts @ name # key # keys) w =
     envchain_set_access_keys name (key # keys)
       (if envchain_set_access_option (last opts) = OptRequirePassphrase then 1 else 0) 0 w"
  using assms(1,2)
  by (simp add: envchain_set_access_def set_access_options_run [OF assms(2,3)]
      policy_after_set_access del: envchain_set_access_keys.simps)

lemma set_args_shape:
  "length argv < 2
    \<or> (\<exists>opts x b c rest. argv = opts @ x # b # c # rest
          \<and> list_all (\<lambda>a. envchain_set_option a \<noteq> OptUnknown) opts
          \<and> starts_with_dash x \<and> envchain_set_option x = OptUnknown)
    \<or> (\<exists>opts name key keys. argv = opts @ name # key # keys
          \<and> list_all (\<lambda>a. envchain_set_option a \<noteq> OptUnknown) opts
          \<and> (\<not> starts_with_dash name \<or> keys = []))"
  using args_shape [of argv envchain_set_option] by (simp add: list_all_iff) metis

lemma set_access_args_shape:
  "length argv < 2
    \<or> (\<exists>opts x b c rest. argv = opts @ x # b # c # rest
          \<and> list_all (\<lambda>a. envchain_set_access_option a \<noteq> OptUnknown) opts
          \<and> starts_with_dash x \<and> envchain_set_access_option x = OptUnknown)
    \<or> (\<exists>opts name key keys. argv = opts @ name # key # keys
          \<and> list_all (\<lambda>a. envchain_set_access_option a \<noteq> OptUnknown) opts
          \<and> (\<not> starts_with_dash name \<or> keys = []))"
  using args_shape [of argv envchain_set_access_option] by (simp add: list_all_iff) metis

lemma main_options_command:
  "complete_global_options pre \<Longrightarrow> main_option cmd = OptOther \<Longrightarrow>
   \<exists>kt' kd' u'. main_options (pre @ cmd # rest) kt kd u = Inr (cmd # rest, kt', kd', u')"
proof (induction pre arbitrary: kt kd u rule: complete_global_options.induct)
  case 1
  then show ?case by simp
next
  case (2 a pre)
  show ?case
  proof (cases "main_option a")
    case OptKeychain
    with "2.prems" obtain t pre' where p: "pre = t # pre'" "complete_global_options pre'"
      by (cases pre) auto
    from "2.IH"(1) [OF OptKeychain p(1) p(2) "2.prems"(2)] OptKeychain p(1)
    show ?thesis by simp
  next
    case OptKeychainFromEnv
    with "2.prems" have p: "complete_global_options pre" by simp
    from "2.IH"(2) [OF OptKeychainFromEnv p "2.prems"(2)] OptKeychainFromEnv
    show ?thesis by simp
  next
    case OptKeychainDir
    with "2.prems" obtain t pre' where p: "pre = t # pre'" "complete_global_options pre'"
      by (cases pre) auto
    from "2.IH"(3) [OF OptKeychainDir p(1) p(2) "2.prems"(2)] OptKeychainDir p(1)
    show ?thesis by simp
  next
    case OptOther
    with "2.prems" show ?thesis by simp
  qed
qed

lemma main_options_end:
  "complete_global_options pre \<Longrightarrow>
   \<exists>kt' kd' u'. main_options pre kt kd u = Inr ([], kt', kd', u')"
proof (induction pre arbitrary: kt kd u rule: complete_global_options.induct)
  case 1
  then show ?case by simp
next
  case (2 a pre)
  show ?case
  proof (cases "main_option a")
    case OptKeychain
    with "2.prems" obtain t pre' where p: "pre = t # pre'" "complete_global_options pre'"
      by (cases pre) auto
    from "2.IH"(1) [OF OptKeychain p(1) p(2)] OptKeychain p(1)
    show ?thesis by simp
  next
    case OptKeychainFromEnv
    with "2.prems" have p: "complete_global_options pre" by simp
    from "2.IH"(2) [OF OptKeychainFromEnv p] OptKeychainFromEnv
    show ?thesis by simp
  next
    case OptKeychainDir
    with "2.prems" obtain t pre' where p: "pre = t # pre'" "complete_global_options pre'"
      by (cases pre) auto
    from "2.IH"(3) [OF OptKeychainDir p(1) p(2)] OptKeychainDir p(1)
    show ?thesis by simp
  next
    case OptOther
    with "2.prems" show ?thesis by simp
  qed
qed

lemma main_options_missing:
  "complete_global_options pre \<Longrightarrow>
   main_option opt = OptKeychain \<or> main_option opt = OptKeychainDir \<Longrightarrow>
   main_options (pre @ [opt]) kt kd u = Inl opt"
proof (induction pre arbitrary: kt kd u rule: complete_global_options.induct)
  case 1
  then show ?case by auto
next
  case (2 a pre)
  show ?case
  proof (cases "main_option a")
    case OptKeychain
    with "2.prems" obtain t pre' where p: "pre = t # pre'" "complete_global_options pre'"
      by (cases pre) auto
    from "2.IH"(1) [OF OptKeychain p(1) p(2) "2.prems"(2)] OptKeychain p(1)
    show ?thesis by simp
  next
    case OptKeychainFromEnv
    with "2.prems" have p: "complete_global_options pre" by simp
    from "2.IH"(2) [OF OptKeychainFromEnv p "2.prems"(2)] OptKeychainFromEnv
    show ?thesis by simp
  next
    case OptKeychainDir
    with "2.prems" obtain t pre' where p: "pre = t # pre'" "complete_global_options pre'"
      by (cases pre) auto
    from "2.IH"(3) [OF OptKeychainDir p(1) p(2) "2.prems"(2)] OptKeychainDir p(1)
    show ?thesis by simp
  next
    case OptOther
    with "2.prems" show ?thesis by simp
  qed
qed

lemma set_keychain_ok:
  "\<forall>t. sec_fault w (KeychainOpen t) = noErr \<Longrightarrow>
   \<exists>k. envchain_set_keychain tgt w = Inr (0, w\<lparr>envchain_keychain := k\<rparr>)"
  by (cases tgt) (auto simp: envchain_set_keychain_def Let_def)

lemma main_after_options:
  assumes o: "main_options args None None False = Inr (args', kt, kd, u)"
    and f: "\<forall>t. sec_fault w (KeychainOpen t) = noErr"
    and n: "args \<noteq> []"
  shows "\<exists>w1. stderr w1 = stderr w \<and>
     main (prog # args) w =
       (case args' of
          [] \<Rightarrow> Inl (envchain_abort_with_help w1)
        | cmd # rest \<Rightarrow>
            (case main_command cmd of
               RunSet \<Rightarrow> envchain_set rest w1
             | RunList \<Rightarrow> envchain_list rest w1
             | RunUnset \<Rightarrow> envchain_unset rest w1
             | RunSetAccess \<Rightarrow> envchain_set_access rest w1
             | RunUnknownOption \<Rightarrow> Inr (2, warn (UnknownOption cmd) w1)
             | RunExec \<Rightarrow> envchain_exec args' w1))"
proof -
  let ?w0 = "w\<lparr>envchain_name := prog\<rparr>"
  let ?t1 = "if kt = None \<and> u then environ ?w0 ''ENVCHAIN_KEYCHAIN'' else kt"
  let ?dir = "if kd = None then environ ?w0 ''ENVCHAIN_KEYCHAIN_DIR'' else kd"
  let ?tgt = "if ?t1 = None
      then (case auto_keychain_target ?dir args' ?w0 of None \<Rightarrow> ?t1 | Some p \<Rightarrow> Some p)
      else ?t1"
  have f0: "\<forall>t. sec_fault ?w0 (KeychainOpen t) = noErr"
    using f by simp
  from set_keychain_ok [OF f0, of ?tgt]
  obtain k where k: "envchain_set_keychain ?tgt ?w0 = Inr (0, ?w0\<lparr>envchain_keychain := k\<rparr>)"
    by blast
  have l: "\<not> length (prog # args) < 2"
    using n by (cases args) simp_all
  have m: "main (prog # args) w =
       (case envchain_set_keychain ?tgt ?w0 of
          Inl h \<Rightarrow> Inl h
        | Inr (rc, w1) \<Rightarrow>
            if rc \<noteq> 0 then Inr (1, w1)
            else
              (case args' of
                 [] \<Rightarrow> Inl (envchain_abort_with_help w1)
               | cmd # rest \<Rightarrow>
                   (case main_command cmd of
                      RunSet \<Rightarrow> envchain_set rest w1
                    | RunList \<Rightarrow> envchain_list rest w1
                    | RunUnset \<Rightarrow> envchain_unset rest w1
                    | RunSetAccess \<Rightarrow> envchain_set_access rest w1
                    | RunUnknownOption \<Rightarrow> Inr (2, warn (UnknownOption cmd) w1)
                    | RunExec \<Rightarrow> envchain_exec args' w1)))"
    by (simp only: main_def Let_def l if_False list.sel list.case o sum.case prod.case)
  have "main (prog # args) w =
       (case args' of
          [] \<Rightarrow> Inl (envchain_abort_with_help (?w0\<lparr>envchain_keychain := k\<rparr>))
        | cmd # rest \<Rightarrow>
            (case main_command cmd of
               RunSet \<Rightarrow> envchain_set rest (?w0\<lparr>envchain_keychain := k\<rparr>)
             | RunList \<Rightarrow> envchain_list rest (?w0\<lparr>envchain_keychain := k\<rparr>)
             | RunUnset \<Rightarrow> envchain_unset rest (?w0\<lparr>envchain_keychain := k\<rparr>)
             | RunSetAccess \<Rightarrow> envchain_set_access rest (?w0\<lparr>envchain_keychain := k\<rparr>)
             | RunUnknownOption \<Rightarrow>
                 Inr (2, warn (UnknownOption cmd) (?w0\<lparr>envchain_keychain := k\<rparr>))
             | RunExec \<Rightarrow> envchain_exec args' (?w0\<lparr>envchain_keychain := k\<rparr>)))"
    unfolding m k by simp
  moreover have "stderr (?w0\<lparr>envchain_keychain := k\<rparr>) = stderr w"
    by simp
  ultimately show ?thesis by blast
qed

lemma main_dispatch_after_options:
  assumes "complete_global_options pre" and "main_option cmd = OptOther"
    and "\<forall>t. sec_fault w (KeychainOpen t) = noErr"
  shows "\<exists>w1. stderr w1 = stderr w \<and>
     main (prog # pre @ cmd # rest) w =
       (case main_command cmd of
          RunSet \<Rightarrow> envchain_set rest w1
        | RunList \<Rightarrow> envchain_list rest w1
        | RunUnset \<Rightarrow> envchain_unset rest w1
        | RunSetAccess \<Rightarrow> envchain_set_access rest w1
        | RunUnknownOption \<Rightarrow> Inr (2, warn (UnknownOption cmd) w1)
        | RunExec \<Rightarrow> envchain_exec (cmd # rest) w1)"
proof -
  from main_options_command [OF assms(1,2), of rest None None False]
  obtain kt kd u where
    o: "main_options (pre @ cmd # rest) None None False = Inr (cmd # rest, kt, kd, u)"
    by blast
  from main_after_options [OF o assms(3), of prog] show ?thesis by simp
qed

lemma main_dispatch:
  assumes "main_option cmd = OptOther" and "\<forall>t. sec_fault w (KeychainOpen t) = noErr"
  shows "\<exists>w1. stderr w1 = stderr w \<and>
     main (prog # cmd # rest) w =
       (case main_command cmd of
          RunSet \<Rightarrow> envchain_set rest w1
        | RunList \<Rightarrow> envchain_list rest w1
        | RunUnset \<Rightarrow> envchain_unset rest w1
        | RunSetAccess \<Rightarrow> envchain_set_access rest w1
        | RunUnknownOption \<Rightarrow> Inr (2, warn (UnknownOption cmd) w1)
        | RunExec \<Rightarrow> envchain_exec (cmd # rest) w1)"
  using main_dispatch_after_options [of "[]" cmd w prog rest] assms by simp

lemma main_no_command:
  assumes "complete_global_options pre" and "\<forall>t. sec_fault w (KeychainOpen t) = noErr"
  shows "exit_status (main (prog # pre) w) = Some 2
    \<and> diagnostics (main (prog # pre) w) = stderr w @ [HelpText]"
proof (cases pre)
  case Nil
  then show ?thesis by (simp add: main_def)
next
  case (Cons a as)
  from main_options_end [OF assms(1), of None None False]
  obtain kt kd u where o: "main_options pre None None False = Inr ([], kt, kd, u)"
    by blast
  from main_after_options [OF o assms(2), of prog] Cons
  show ?thesis by auto
qed

lemma main_missing_argument:
  assumes "complete_global_options pre"
    and "main_option opt = OptKeychain \<or> main_option opt = OptKeychainDir"
  shows "main (prog # pre @ [opt]) w = Inr (2, warn (MissingArgument opt) (w\<lparr>envchain_name := prog\<rparr>))"
  using main_options_missing [OF assms, of None None False]
  by (simp add: main_def Let_def)

lemma command_not_global:
  "main_command cmd \<noteq> RunUnknownOption \<Longrightarrow> main_option cmd = OptOther"
proof (rule ccontr)
  assume c: "main_command cmd \<noteq> RunUnknownOption" and o: "main_option cmd \<noteq> OptOther"
  have g: "main_command ''--keychain'' = RunUnknownOption"
    "main_command ''--keychain-from-env'' = RunUnknownOption"
    "main_command ''--keychain-dir'' = RunUnknownOption"
    by (simp_all add: main_command_def starts_with_dash_def)
  from c g have "cmd \<noteq> ''--keychain''" "cmd \<noteq> ''--keychain-from-env''"
    "cmd \<noteq> ''--keychain-dir''"
    by metis+
  then have "main_option cmd = OptOther"
    by (simp only: main_option_def simp_thms if_False)
  with o show False by simp
qed


lemma example_commands:
  "main_command ''--set-access'' = RunSetAccess" "main_command ''--set'' = RunSet"
  "main_option ''--set-access'' = OptOther" "main_option ''--set'' = OptOther"
  "main_option ''--frob'' = OptOther" "main_command ''--frob'' = RunUnknownOption"
  "main_option ''--keychain'' = OptKeychain"
  "main_option ''--keychain-from-env'' = OptKeychainFromEnv"
  "starts_with_dash ''-x''" "envchain_set_option ''-x'' = OptUnknown"
  "envchain_set_access_option ''-x'' = OptUnknown"
  "envchain_set_option ''-n'' = OptNoecho"
  "envchain_set_access_option ''-p'' = OptRequirePassphrase"
  "\<not> starts_with_dash ''db''" "\<not> is_show_value ''db''" "\<not> is_show_value ''web''"
  by (simp_all add: main_option_def main_command_def starts_with_dash_def
      envchain_set_option_def envchain_set_access_option_def is_show_value_def)

lemma example_world_stderr [simp]: "stderr (example_world its) = []"
  by (simp add: example_world_def)



end
